theory Spec2Isabelle
  imports Complex_Main "HOL-Library.Multiset" "HOL-Library.Word"
begin

unbundle bit_operations_syntax

section \<open>Data frames\<close>

text \<open>
  The script \<^verbatim>\<open>Chapter01/forecasting/forecasting_example.py\<close> works on pandas data
  frames. A frame is modelled with what the script reads and writes of it: the list of
  column labels, and the rows in their positional order, each row carrying its index label
  and one cell per column.

  A cell is an integer, a string, a timestamp (datetime64, nanoseconds since the epoch) or
  the missing timestamp \<open>NaT\<close>. Floating-point cells are not modelled.

  Frames read from a CSV file have pairwise different column labels and as many cells in
  every row as there are columns; \<open>wf_frame\<close> states this. Selecting a column by
  a label that occurs twice yields a frame in pandas, not a series: the model of
  \<open>getitem\<close> is meant for labels that occur at most once.
\<close>

datatype cell = IntC int | StrC string | TimeC int | NaT

type_synonym row = "int \<times> cell list"

record frame =
  columns :: "string list"
  rows :: "row list"

datatype error =
    KeyError string
  | ValueError string
  | TypeError string
  | NameError string
  | OverflowError string
  | AttributeError string
  | Exception string

definition wf_frame :: "frame \<Rightarrow> bool" where
  "wf_frame df \<longleftrightarrow>
     distinct (columns df) \<and> list_all (\<lambda>r. length (snd r) = length (columns df)) (rows df)"

fun position :: "'a \<Rightarrow> 'a list \<Rightarrow> nat" where
  "position x [] = 0"
| "position x (y # ys) = (if x = y then 0 else Suc (position x ys))"

text \<open>The cell of row \<open>r\<close> under the label \<open>c\<close> of frame \<open>df\<close>.\<close>

definition cell_at :: "frame \<Rightarrow> string \<Rightarrow> row \<Rightarrow> cell" where
  "cell_at df c r = snd r ! position c (columns df)"

text \<open>\<^verbatim>\<open>df[c]\<close>: the cells of column \<open>c\<close>, top to bottom; KeyError when there is no such label.\<close>

definition getitem :: "frame \<Rightarrow> string \<Rightarrow> error + cell list" where
  "getitem df c =
     (if c \<in> set (columns df) then Inr (map (cell_at df c) (rows df)) else Inl (KeyError c))"

text \<open>
  \<^verbatim>\<open>df[c] = values\<close> for an existing label \<open>c\<close> and a series with the frame's own index:
  the cells of that column are replaced, position by position.
\<close>

definition setitem :: "frame \<Rightarrow> string \<Rightarrow> cell list \<Rightarrow> frame" where
  "setitem df c vs =
     df\<lparr>rows := map2 (\<lambda>r v. (fst r, (snd r)[position c (columns df) := v])) (rows df) vs\<rparr>"

text \<open>
  \<^verbatim>\<open>pd.to_datetime(series)\<close> with the default \<^verbatim>\<open>errors="raise"\<close>. Timestamps and missing
  values stay, an integer is read as nanoseconds since the epoch, a string goes through the
  library's date parser. The parser is not part of this repository: it is the parameter
  \<open>parse\<close>, which returns \<open>None\<close> where the library raises, \<open>Some None\<close> where
  it reads the string as missing and \<open>Some (Some t)\<close> for the timestamp \<open>t\<close>.
\<close>

type_synonym date_parser = "string \<Rightarrow> int option option"

fun to_datetime_cell :: "date_parser \<Rightarrow> cell \<Rightarrow> error + cell" where
  "to_datetime_cell parse (TimeC t) = Inr (TimeC t)"
| "to_datetime_cell parse NaT = Inr NaT"
| "to_datetime_cell parse (IntC n) = Inr (TimeC n)"
| "to_datetime_cell parse (StrC s) =
     (case parse s of
        None \<Rightarrow> Inl (ValueError s)
      | Some None \<Rightarrow> Inr NaT
      | Some (Some t) \<Rightarrow> Inr (TimeC t))"

fun to_datetime :: "date_parser \<Rightarrow> cell list \<Rightarrow> error + cell list" where
  "to_datetime parse [] = Inr []"
| "to_datetime parse (c # cs) =
     (case to_datetime_cell parse c of
        Inl e \<Rightarrow> Inl e
      | Inr v \<Rightarrow> (case to_datetime parse cs of Inl e \<Rightarrow> Inl e | Inr vs \<Rightarrow> Inr (v # vs)))"

text \<open>
  \<^verbatim>\<open>df.rename(columns=m, inplace=True)\<close>: every label that is a key of \<open>m\<close> is
  replaced, the others stay, and keys of \<open>m\<close> that are no label of the frame are ignored.
\<close>

definition rename :: "frame \<Rightarrow> (string \<rightharpoonup> string) \<Rightarrow> frame" where
  "rename df m = df\<lparr>columns := map (\<lambda>c. case m c of None \<Rightarrow> c | Some c' \<Rightarrow> c') (columns df)\<rparr>"

text \<open>\<^verbatim>\<open>series == k\<close> for an integer \<open>k\<close>, and \<^verbatim>\<open>&\<close> on two boolean series.\<close>

definition eq_scalar :: "cell list \<Rightarrow> int \<Rightarrow> bool list" where
  "eq_scalar cs k = map (\<lambda>c. c = IntC k) cs"

definition mask_and :: "bool list \<Rightarrow> bool list \<Rightarrow> bool list" where
  "mask_and xs ys = map2 (\<and>) xs ys"

text \<open>\<^verbatim>\<open>df[mask]\<close>: the rows where the mask is true, in their order, with their labels.\<close>

definition boolean_index :: "frame \<Rightarrow> bool list \<Rightarrow> frame" where
  "boolean_index df keep = df\<lparr>rows := map fst (filter snd (zip (rows df) keep))\<rparr>"

text \<open>\<^verbatim>\<open>reset_index(drop=True)\<close>: the rows are relabelled 0, 1, 2, ...\<close>

definition reset_index :: "frame \<Rightarrow> frame" where
  "reset_index df = df\<lparr>rows := zip (map int [0..<length (rows df)]) (map snd (rows df))\<rparr>"

text \<open>
  \<^verbatim>\<open>df.sort_values(label, ascending=True)\<close>, with pandas' defaults
  \<^verbatim>\<open>na_position="last"\<close> and \<^verbatim>\<open>kind="quicksort"\<close>. A label that is absent raises
  KeyError, one that occurs twice ValueError. The rows with a missing key come last, in
  their order; the others come first, by ascending key. The library's sort promises no
  order among rows of equal key; the model keeps them in their order (\<open>sort_key\<close> is
  stable), and no theorem below depends on that choice.

  The script sorts one column, a datetime64 one, so the model covers timestamp keys: on a
  column with a cell that is neither a timestamp nor missing it returns TypeError
  (\<open>prep_store_data\<close> never reaches that branch on a well-formed frame, see
  \<open>prep_store_data_succeeds\<close>).
\<close>

fun is_time :: "cell \<Rightarrow> bool" where
  "is_time (TimeC t) = True"
| "is_time c = False"

fun the_time :: "cell \<Rightarrow> int" where
  "the_time (TimeC t) = t"
| "the_time c = 0"

definition sort_values :: "frame \<Rightarrow> string \<Rightarrow> error + frame" where
  "sort_values df label =
     (if label \<notin> set (columns df) then Inl (KeyError label)
      else if count_list (columns df) label \<noteq> 1 then Inl (ValueError label)
      else
        let present = filter (\<lambda>r. cell_at df label r \<noteq> NaT) (rows df);
            missing = filter (\<lambda>r. cell_at df label r = NaT) (rows df)
        in if list_all (\<lambda>r. is_time (cell_at df label r)) present
           then Inr (df\<lparr>rows := sort_key (\<lambda>r. the_time (cell_at df label r)) present @ missing\<rparr>)
           else Inl (TypeError label))"

section \<open>Preparation of the store data\<close>

text \<open>
  \<^verbatim>\<open>prep_store_data(df, store_id, store_open)\<close>, lines 43 to 51. Lines 46 and 47
  assign to the frame object that was passed in and rename its columns in place, so the
  model returns two things: the state of that object when the call ends, and the outcome
  of the call (the error raised, or the frame returned).
\<close>

definition canonical_names :: "string \<rightharpoonup> string" where
  "canonical_names = [''Date'' \<mapsto> ''ds'', ''Sales'' \<mapsto> ''y'']"

definition prep_store_data ::
  "date_parser \<Rightarrow> frame \<Rightarrow> int \<Rightarrow> int \<Rightarrow> frame \<times> (error + frame)" where
  "prep_store_data parse df store_id store_open =
     (case getitem df ''Date'' of
        Inl e \<Rightarrow> (df, Inl e)
      | Inr dates \<Rightarrow>
     (case to_datetime parse dates of
        Inl e \<Rightarrow> (df, Inl e)
      | Inr stamps \<Rightarrow>
     (let df1 = setitem df ''Date'' stamps;
          df2 = rename df1 canonical_names
      in case getitem df2 ''Store'' of
        Inl e \<Rightarrow> (df2, Inl e)
      | Inr store \<Rightarrow>
     (case getitem df2 ''Open'' of
        Inl e \<Rightarrow> (df2, Inl e)
      | Inr opn \<Rightarrow>
     (let df_store =
            reset_index
              (boolean_index df2 (mask_and (eq_scalar store store_id) (eq_scalar opn store_open)))
      in (df2, sort_values df_store ''ds''))))))"

section \<open>Vocabulary of the properties\<close>

text \<open>
  The label a column has after line 47, the rows that line 48 selects, and the relation
  between a row before line 46 and the same row after it (its Date cell replaced by the
  timestamp \<open>to_datetime_cell\<close> gives, all else unchanged).
\<close>

definition canonical_label :: "string \<Rightarrow> string" where
  "canonical_label c = (if c = ''Date'' then ''ds'' else if c = ''Sales'' then ''y'' else c)"

definition matches :: "frame \<Rightarrow> int \<Rightarrow> int \<Rightarrow> row \<Rightarrow> bool" where
  "matches df a b r \<longleftrightarrow> cell_at df ''Store'' r = IntC a \<and> cell_at df ''Open'' r = IntC b"

definition stamped :: "date_parser \<Rightarrow> frame \<Rightarrow> row \<Rightarrow> row \<Rightarrow> bool" where
  "stamped parse df r r' \<longleftrightarrow>
     (case to_datetime_cell parse (cell_at df ''Date'' r) of
        Inl e \<Rightarrow> False
      | Inr v \<Rightarrow> r' = (fst r, (snd r)[position ''Date'' (columns df) := v]))"

section \<open>A sample input\<close>

text \<open>
  Four rows in the layout of the Rossmann file \<^verbatim>\<open>train.csv\<close>, and a date parser that
  knows the two dates they hold (midnight UTC, in nanoseconds since the epoch).
  \<open>sample_frame_after\<close> is the state of the frame object after the call
  \<^verbatim>\<open>prep_store_data(df, 4, 1)\<close>, \<open>sample_prepared\<close> the frame the call returns.
\<close>


definition sample_parser :: date_parser where
  "sample_parser s =
     (if s = ''2015-07-30'' then Some (Some 1438214400000000000)
      else if s = ''2015-07-31'' then Some (Some 1438300800000000000)
      else None)"

definition sample_frame :: frame where
  "sample_frame =
     \<lparr>columns = [''Store'', ''DayOfWeek'', ''Date'', ''Sales'', ''Customers'', ''Open''],
      rows = [(0, [IntC 4, IntC 5, StrC ''2015-07-31'', IntC 13995, IntC 1498, IntC 1]),
              (1, [IntC 3, IntC 5, StrC ''2015-07-31'', IntC 8314, IntC 821, IntC 1]),
              (2, [IntC 4, IntC 4, StrC ''2015-07-30'', IntC 10387, IntC 1276, IntC 1]),
              (3, [IntC 4, IntC 3, StrC ''2015-07-30'', IntC 0, IntC 0, IntC 0])]\<rparr>"

definition sample_prepared :: frame where
  "sample_prepared =
     \<lparr>columns = [''Store'', ''DayOfWeek'', ''ds'', ''y'', ''Customers'', ''Open''],
      rows = [(1, [IntC 4, IntC 4, TimeC 1438214400000000000, IntC 10387, IntC 1276, IntC 1]),
              (0, [IntC 4, IntC 5, TimeC 1438300800000000000, IntC 13995, IntC 1498, IntC 1])]\<rparr>"

definition sample_frame_after :: frame where
  "sample_frame_after =
     \<lparr>columns = [''Store'', ''DayOfWeek'', ''ds'', ''y'', ''Customers'', ''Open''],
      rows = [(0, [IntC 4, IntC 5, TimeC 1438300800000000000, IntC 13995, IntC 1498, IntC 1]),
              (1, [IntC 3, IntC 5, TimeC 1438300800000000000, IntC 8314, IntC 821, IntC 1]),
              (2, [IntC 4, IntC 4, TimeC 1438214400000000000, IntC 10387, IntC 1276, IntC 1]),
              (3, [IntC 4, IntC 3, TimeC 1438214400000000000, IntC 0, IntC 0, IntC 0])]\<rparr>"

text \<open>
  Further inputs: two rows of one store on one day, a frame with rows of another store
  only, and three frames with no row of store 4 that lack the Date column, hold a string
  the parser rejects, or already have a column labelled ds.
\<close>

definition duplicate_frame :: frame where
  "duplicate_frame =
     \<lparr>columns = [''Store'', ''Date'', ''Sales'', ''Open''],
      rows = [(0, [IntC 4, StrC ''2015-07-31'', IntC 13995, IntC 1]),
              (1, [IntC 4, StrC ''2015-07-31'', IntC 13995, IntC 1])]\<rparr>"

definition other_store_frame :: frame where
  "other_store_frame =
     \<lparr>columns = [''Store'', ''Date'', ''Sales'', ''Open''],
      rows = [(0, [IntC 3, StrC ''2015-07-31'', IntC 8314, IntC 1])]\<rparr>"

definition no_date_frame :: frame where
  "no_date_frame =
     \<lparr>columns = [''Store'', ''Sales'', ''Open''],
      rows = [(0, [IntC 3, IntC 8314, IntC 1])]\<rparr>"

definition bad_date_frame :: frame where
  "bad_date_frame =
     \<lparr>columns = [''Store'', ''Date'', ''Sales'', ''Open''],
      rows = [(0, [IntC 3, StrC ''yesterday'', IntC 8314, IntC 1])]\<rparr>"

definition extra_ds_frame :: frame where
  "extra_ds_frame =
     \<lparr>columns = [''Store'', ''Date'', ''Sales'', ''Open'', ''ds''],
      rows = [(0, [IntC 3, StrC ''2015-07-31'', IntC 8314, IntC 1, IntC 0])]\<rparr>"


section \<open>The split index: a float times an integer\<close>

text \<open>
  Line 78 is \<^verbatim>\<open>train_index = int(train_fraction * df.shape[0])\<close>. The fraction is a
  Python float, an IEEE 754 binary64 value, modelled by its 64 bits. Python converts the
  row count to a float, multiplies the two floats and truncates the product towards zero.
  Conversion and multiplication both round to the nearest float, ties to the even
  mantissa.

  A finite float, and the exact product of two, is an integer mantissa times a power of
  two: \<open>Dyadic m e\<close> stands for \<open>m * 2 ^ e\<close>. The sign of a zero is not kept: no
  operation of line 78 reads it.
\<close>

type_synonym double = "64 word"

datatype dyadic = Dyadic int int

datatype float_value = Finite dyadic | Infinity bool | NaN

fun dyadic_value :: "dyadic \<Rightarrow> rat" where
  "dyadic_value (Dyadic m e) = of_int m * 2 powi e"

definition decode :: "double \<Rightarrow> float_value" where
  "decode w =
     (let negative = bit w 63;
          biased = unat (take_bit 11 (drop_bit 52 w));
          fraction = unat (take_bit 52 w);
          sign = (if negative then - 1 else 1)
      in if biased = 2047 then (if fraction = 0 then Infinity negative else NaN)
         else if biased = 0 then Finite (Dyadic (sign * int fraction) (- 1074))
         else Finite (Dyadic (sign * int (2 ^ 52 + fraction)) (int biased - 1075)))"

text \<open>The number of binary digits of a positive integer (Python's \<^verbatim>\<open>int.bit_length\<close>).\<close>

function bit_length :: "int \<Rightarrow> nat" where
  "bit_length n = (if n \<le> 0 then 0 else Suc (bit_length (n div 2)))"
  by pat_completeness auto
termination
  by (relation "measure nat") auto

declare bit_length.simps [simp del]

text \<open>\<open>a / 2 ^ s\<close> for \<open>a \<ge> 0\<close>, rounded to the nearest integer, a tie to the even one.\<close>

definition round_half_even :: "int \<Rightarrow> nat \<Rightarrow> int" where
  "round_half_even a s =
     (let q = a div 2 ^ s; r = a mod 2 ^ s
      in if 2 * r < 2 ^ s then q
         else if 2 ^ s < 2 * r then q + 1
         else if even q then q else q + 1)"

text \<open>
  Rounding an exact value to binary64. \<open>nearest\<close> keeps 53 bits of the mantissa, with
  the exponent of the last place at least \<open>-1074\<close> (the subnormal range); a nearest
  value of \<open>2 ^ 1024\<close> or more overflows to an infinity.
\<close>

definition nearest :: "dyadic \<Rightarrow> dyadic" where
  "nearest d =
     (case d of Dyadic m e \<Rightarrow>
        let shift = max (int (bit_length \<bar>m\<bar>) - 53) (- 1074 - e)
        in if shift \<le> 0 then Dyadic m e
           else Dyadic (sgn m * round_half_even \<bar>m\<bar> (nat shift)) (e + shift))"

definition overflows :: "dyadic \<Rightarrow> bool" where
  "overflows d = (case d of Dyadic m e \<Rightarrow> m \<noteq> 0 \<and> 1024 < int (bit_length \<bar>m\<bar>) + e)"

definition round_double :: "dyadic \<Rightarrow> float_value" where
  "round_double d =
     (if overflows (nearest d) then Infinity (case d of Dyadic m e \<Rightarrow> m < 0)
      else Finite (nearest d))"

text \<open>
  \<^verbatim>\<open>float(n)\<close> for a Python integer, as \<^verbatim>\<open>x * n\<close> applies it to its integer operand:
  OverflowError when the integer is too large for a float.
\<close>

definition int_to_double :: "int \<Rightarrow> error + float_value" where
  "int_to_double n =
     (case round_double (Dyadic n 0) of
        Finite d \<Rightarrow> Inr (Finite d)
      | Infinity b \<Rightarrow> Inl (OverflowError ''int too large to convert to float'')
      | NaN \<Rightarrow> Inr NaN)"

fun is_zero :: "float_value \<Rightarrow> bool" where
  "is_zero (Finite (Dyadic m e)) = (m = 0)"
| "is_zero v = False"

fun is_negative :: "float_value \<Rightarrow> bool" where
  "is_negative (Finite (Dyadic m e)) = (m < 0)"
| "is_negative (Infinity b) = b"
| "is_negative NaN = False"

fun float_mul :: "float_value \<Rightarrow> float_value \<Rightarrow> float_value" where
  "float_mul (Finite (Dyadic m1 e1)) (Finite (Dyadic m2 e2)) = round_double (Dyadic (m1 * m2) (e1 + e2))"
| "float_mul NaN y = NaN"
| "float_mul x NaN = NaN"
| "float_mul (Infinity b) y = (if is_zero y then NaN else Infinity (b \<noteq> is_negative y))"
| "float_mul x (Infinity b) = (if is_zero x then NaN else Infinity (is_negative x \<noteq> b))"

text \<open>\<^verbatim>\<open>int(x)\<close> for a float: truncation towards zero, and an error on NaN and infinities.\<close>

fun py_int :: "float_value \<Rightarrow> error + int" where
  "py_int NaN = Inl (ValueError ''cannot convert float NaN to integer'')"
| "py_int (Infinity b) = Inl (OverflowError ''cannot convert float infinity to integer'')"
| "py_int (Finite (Dyadic m e)) =
     Inr (if 0 \<le> e then m * 2 ^ nat e else sgn m * (\<bar>m\<bar> div 2 ^ nat (- e)))"

section \<open>Position slices\<close>

text \<open>
  \<^verbatim>\<open>df.iloc[start:stop]\<close> follows Python's slice rules: a negative bound counts from the
  end, and a bound beyond either end is clipped. \<^verbatim>\<open>df.copy()\<close> is a deep copy, an equal
  value.
\<close>

definition slice_bound :: "nat \<Rightarrow> int \<Rightarrow> nat" where
  "slice_bound n i = (if i < 0 then nat (int n + i) else min n (nat i))"

definition iloc :: "frame \<Rightarrow> int option \<Rightarrow> int option \<Rightarrow> frame" where
  "iloc df start stop =
     (let n = length (rows df);
          lo = (case start of None \<Rightarrow> 0 | Some i \<Rightarrow> slice_bound n i);
          hi = (case stop of None \<Rightarrow> n | Some j \<Rightarrow> slice_bound n j)
      in df\<lparr>rows := take (hi - lo) (drop lo (rows df))\<rparr>)"

definition copy :: "frame \<Rightarrow> frame" where
  "copy df = df"

definition shape0 :: "frame \<Rightarrow> int" where
  "shape0 df = int (length (rows df))"

text \<open>Lines 78 to 80.\<close>

definition split_index :: "double \<Rightarrow> frame \<Rightarrow> error + int" where
  "split_index train_fraction df =
     (case int_to_double (shape0 df) of
        Inl e \<Rightarrow> Inl e
      | Inr n \<Rightarrow> py_int (float_mul (decode train_fraction) n))"

definition split_frame :: "frame \<Rightarrow> int \<Rightarrow> frame \<times> frame" where
  "split_frame df train_index =
     (iloc (copy df) (Some 0) (Some train_index), iloc (copy df) (Some train_index) None)"


section \<open>The experiment tracker\<close>

text \<open>
  What the script uses of MLflow's fluent interface. The tracker keeps a stack of active
  runs (the innermost first); every run has a status, and metrics, models and printed
  locators are recorded under the run they belong to. Runs are named by numbers, handed out
  in order.

  \<^verbatim>\<open>mlflow.start_run()\<close> refuses to start a run while another is active (the script
  does not pass \<^verbatim>\<open>nested=True\<close>); otherwise it pushes a new run.
  \<^verbatim>\<open>mlflow.end_run(status)\<close> pops the innermost run and stores its final status. The
  object \<^verbatim>\<open>start_run\<close> returns is a context manager: leaving the \<^verbatim>\<open>with\<close> block
  calls \<^verbatim>\<open>end_run\<close>, with the status FINISHED when the block ended normally and FAILED
  when an exception left it, and the exception then propagates.

  The answers of the tracking store to a logged metric and a logged model are parameters
  (fields of \<open>libraries\<close> below): \<open>None\<close> when the store accepts, an error when it
  raises. Failures of the store while a run is created or closed are not modelled.
\<close>

datatype run_status = RUNNING | FINISHED | FAILED

record ('m, 'v) tracker =
  active_run_stack :: "nat list"
  next_run_id :: nat
  status :: "nat \<rightharpoonup> run_status"
  metrics :: "(nat \<times> string \<times> 'v) list"
  models :: "(nat \<times> string \<times> 'm) list"
  printed_uris :: "nat list"

definition push_run :: "('m, 'v) tracker \<Rightarrow> ('m, 'v) tracker" where
  "push_run s =
     s\<lparr>active_run_stack := next_run_id s # active_run_stack s,
       next_run_id := Suc (next_run_id s),
       status := (status s)(next_run_id s \<mapsto> RUNNING)\<rparr>"

definition start_run :: "('m, 'v) tracker \<Rightarrow> error + ('m, 'v) tracker" where
  "start_run s =
     (if active_run_stack s \<noteq> [] then Inl (Exception ''a run is already active'')
      else Inr (push_run s))"

definition end_run :: "run_status \<Rightarrow> ('m, 'v) tracker \<Rightarrow> ('m, 'v) tracker" where
  "end_run final s =
     (case active_run_stack s of
        [] \<Rightarrow> s
      | run # outer \<Rightarrow> s\<lparr>active_run_stack := outer, status := (status s)(run \<mapsto> final)\<rparr>)"

text \<open>
  \<^verbatim>\<open>mlflow.log_metric\<close> and \<^verbatim>\<open>mlflow.pyfunc.log_model\<close> write to the innermost
  active run, and start one when none is active.
\<close>

definition get_or_start_run :: "('m, 'v) tracker \<Rightarrow> nat \<times> ('m, 'v) tracker" where
  "get_or_start_run s =
     (case active_run_stack s of
        [] \<Rightarrow> (next_run_id s, push_run s)
      | run # outer \<Rightarrow> (run, s))"

definition log_metric ::
  "(nat \<Rightarrow> string \<Rightarrow> 'v \<Rightarrow> error option) \<Rightarrow> string \<Rightarrow> 'v \<Rightarrow> ('m, 'v) tracker
   \<Rightarrow> error option \<times> ('m, 'v) tracker" where
  "log_metric store key v s =
     (case get_or_start_run s of (run, s1) \<Rightarrow>
        (case store run key v of
           Some e \<Rightarrow> (Some e, s1)
         | None \<Rightarrow> (None, s1\<lparr>metrics := metrics s1 @ [(run, key, v)]\<rparr>)))"

definition log_model ::
  "(nat \<Rightarrow> string \<Rightarrow> 'm \<Rightarrow> error option) \<Rightarrow> string \<Rightarrow> 'm \<Rightarrow> ('m, 'v) tracker
   \<Rightarrow> error option \<times> ('m, 'v) tracker" where
  "log_model store path m s =
     (case get_or_start_run s of (run, s1) \<Rightarrow>
        (case store run path m of
           Some e \<Rightarrow> (Some e, s1)
         | None \<Rightarrow> (None, s1\<lparr>models := models s1 @ [(run, path, m)]\<rparr>)))"

text \<open>
  Line 98 prints the locator of the logged model, built from
  \<^verbatim>\<open>mlflow.active_run().info.run_id\<close>; \<^verbatim>\<open>active_run()\<close> is \<^verbatim>\<open>None\<close> when no run is
  active, and reading \<^verbatim>\<open>.info\<close> of it raises AttributeError.
\<close>

definition print_model_uri :: "('m, 'v) tracker \<Rightarrow> error + ('m, 'v) tracker" where
  "print_model_uri s =
     (case active_run_stack s of
        [] \<Rightarrow> Inl (AttributeError ''info'')
      | run # outer \<Rightarrow> Inr (s\<lparr>printed_uris := printed_uris s @ [run]\<rparr>))"

section \<open>Fit, evaluate, log\<close>

text \<open>
  The forecasting library (Prophet and its diagnostics) and the tracking store are outside
  the repository. \<open>train_predict\<close> takes them as a record of functions; each returns the
  error it raises or its result. \<open>'m\<close> is the type of models, \<open>'cv\<close> of
  cross-validation tables, \<open>'pm\<close> of metric tables and \<open>'v\<close> of metric values.
  \<open>fit\<close> returns the fitted model (Prophet's \<^verbatim>\<open>fit\<close> updates the model object and
  returns it), and \<open>loc\<close> is the lookup \<^verbatim>\<open>df_p.loc[0, "rmse"]\<close>.
\<close>

record ('m, 'cv, 'pm, 'v) libraries =
  Prophet :: "bool \<Rightarrow> bool \<Rightarrow> bool \<Rightarrow> double \<Rightarrow> 'm"
  fit :: "'m \<Rightarrow> frame \<Rightarrow> error + 'm"
  cross_validation :: "'m \<Rightarrow> string \<Rightarrow> string \<Rightarrow> string \<Rightarrow> error + 'cv"
  performance_metrics :: "'cv \<Rightarrow> error + 'pm"
  loc :: "'pm \<Rightarrow> int \<Rightarrow> string \<Rightarrow> error + 'v"
  predict :: "'m \<Rightarrow> frame \<Rightarrow> error + frame"
  store_metric :: "nat \<Rightarrow> string \<Rightarrow> 'v \<Rightarrow> error option"
  store_model :: "nat \<Rightarrow> string \<Rightarrow> 'm \<Rightarrow> error option"

text \<open>\<^verbatim>\<open>d[key]\<close> on a dictionary.\<close>

definition dict_getitem :: "(string \<rightharpoonup> 'a) \<Rightarrow> string \<Rightarrow> error + 'a" where
  "dict_getitem d key = (case d key of None \<Rightarrow> Inl (KeyError key) | Some v \<Rightarrow> Inr v)"

text \<open>The float literal \<^verbatim>\<open>0.95\<close> of line 87.\<close>

definition interval_width :: double where
  "interval_width = 0x3FEE666666666666"

text \<open>
  Lines 78 to 100, the block of the \<^verbatim>\<open>with\<close> statement. The first error ends the
  block; the tracker is returned in the state it had then.
\<close>

definition train_predict_block ::
  "('m, 'cv, 'pm, 'v) libraries \<Rightarrow> frame \<Rightarrow> double \<Rightarrow> (string \<rightharpoonup> bool) \<Rightarrow> ('m, 'v) tracker
   \<Rightarrow> (error + frame \<times> frame \<times> frame \<times> int) \<times> ('m, 'v) tracker" where
  "train_predict_block lib df train_fraction seasonality s =
     (case split_index train_fraction df of
        Inl e \<Rightarrow> (Inl e, s)
      | Inr train_index \<Rightarrow>
     (case split_frame df train_index of (df_train, df_test) \<Rightarrow>
     (case dict_getitem seasonality ''yearly'' of
        Inl e \<Rightarrow> (Inl e, s)
      | Inr yearly \<Rightarrow>
     (case dict_getitem seasonality ''weekly'' of
        Inl e \<Rightarrow> (Inl e, s)
      | Inr weekly \<Rightarrow>
     (case dict_getitem seasonality ''daily'' of
        Inl e \<Rightarrow> (Inl e, s)
      | Inr daily \<Rightarrow>
     (case fit lib (Prophet lib yearly weekly daily interval_width) df_train of
        Inl e \<Rightarrow> (Inl e, s)
      | Inr model \<Rightarrow>
     (case cross_validation lib model ''180 days'' ''180 days'' ''180 days'' of
        Inl e \<Rightarrow> (Inl e, s)
      | Inr df_cv \<Rightarrow>
     (case performance_metrics lib df_cv of
        Inl e \<Rightarrow> (Inl e, s)
      | Inr df_p \<Rightarrow>
     (case loc lib df_p 0 ''rmse'' of
        Inl e \<Rightarrow> (Inl e, s)
      | Inr rmse \<Rightarrow>
     (case log_metric (store_metric lib) ''rmse'' rmse s of
        (Some e, s1) \<Rightarrow> (Inl e, s1)
      | (None, s1) \<Rightarrow>
     (case log_model (store_model lib) ''model'' model s1 of
        (Some e, s2) \<Rightarrow> (Inl e, s2)
      | (None, s2) \<Rightarrow>
     (case print_model_uri s2 of
        Inl e \<Rightarrow> (Inl e, s2)
      | Inr s3 \<Rightarrow>
     (case predict lib model df_test of
        Inl e \<Rightarrow> (Inl e, s3)
      | Inr predicted \<Rightarrow> (Inr (predicted, df_train, df_test, train_index), s3))))))))))))))"

text \<open>Lines 71 to 100: the block inside \<^verbatim>\<open>with mlflow.start_run():\<close>.\<close>

definition train_predict ::
  "('m, 'cv, 'pm, 'v) libraries \<Rightarrow> frame \<Rightarrow> double \<Rightarrow> (string \<rightharpoonup> bool) \<Rightarrow> ('m, 'v) tracker
   \<Rightarrow> (error + frame \<times> frame \<times> frame \<times> int) \<times> ('m, 'v) tracker" where
  "train_predict lib df train_fraction seasonality s =
     (case start_run s of
        Inl e \<Rightarrow> (Inl e, s)
      | Inr s0 \<Rightarrow>
          (case train_predict_block lib df train_fraction seasonality s0 of
             (Inl e, s1) \<Rightarrow> (Inl e, end_run FAILED s1)
           | (Inr result, s1) \<Rightarrow> (Inr result, end_run FINISHED s1)))"


section \<open>Plotting the forecast\<close>

text \<open>
  \<open>plot_forecast\<close>, lines 103 to 148, draws on a new figure and saves it. The figure is
  modelled by what is drawn on it, in order: a line of points with its legend label, or a
  band between two curves. \<open>saved\<close> maps a file name to the figure \<^verbatim>\<open>savefig\<close>
  wrote to it. Tick labels and layout are not modelled.

  \<^verbatim>\<open>df.plot(x=..., y=...)\<close> and \<^verbatim>\<open>predicted[...]\<close> raise KeyError for a column the
  frame does not have. Other failures inside the plotting library are not modelled.

  Line 134 reads \<^verbatim>\<open>train_index\<close>. The name is neither a parameter nor a local variable
  of \<open>plot_forecast\<close>, so Python looks it up among the module's globals when the line
  runs, and raises NameError when it is not bound there. The globals are an argument of
  the model.
\<close>

datatype artist =
    Line string "(cell \<times> cell) list"
  | Band "(cell \<times> cell \<times> cell) list"

record pyplot =
  artists :: "artist list"
  xlabel :: string
  ylabel :: string
  saved :: "string \<rightharpoonup> artist list"

type_synonym globals = "string \<rightharpoonup> cell"

definition subplots :: "pyplot \<Rightarrow> pyplot" where
  "subplots plt = plt\<lparr>artists := [], xlabel := [], ylabel := []\<rparr>"

definition frame_plot :: "frame \<Rightarrow> string \<Rightarrow> string \<Rightarrow> string \<Rightarrow> pyplot \<Rightarrow> error + pyplot" where
  "frame_plot df x y label plt =
     (case getitem df x of
        Inl e \<Rightarrow> Inl e
      | Inr xs \<Rightarrow>
          (case getitem df y of
             Inl e \<Rightarrow> Inl e
           | Inr ys \<Rightarrow> Inr (plt\<lparr>artists := artists plt @ [Line label (zip xs ys)]\<rparr>)))"

definition fill_between :: "cell list \<Rightarrow> cell list \<Rightarrow> cell list \<Rightarrow> pyplot \<Rightarrow> pyplot" where
  "fill_between x y1 y2 plt = plt\<lparr>artists := artists plt @ [Band (zip x (zip y1 y2))]\<rparr>"

definition savefig :: "string \<Rightarrow> pyplot \<Rightarrow> pyplot" where
  "savefig name plt = plt\<lparr>saved := (saved plt)(name \<mapsto> artists plt)\<rparr>"

text \<open>Reading a global name, and \<^verbatim>\<open>v - k\<close> for an integer \<open>k\<close>.\<close>

definition load_global :: "globals \<Rightarrow> string \<Rightarrow> error + cell" where
  "load_global g name = (case g name of None \<Rightarrow> Inl (NameError name) | Some v \<Rightarrow> Inr v)"

fun minus_int :: "cell \<Rightarrow> int \<Rightarrow> error + int" where
  "minus_int (IntC i) k = Inr (i - k)"
| "minus_int v k = Inl (TypeError ''-'')"

definition plot_forecast ::
  "globals \<Rightarrow> frame \<Rightarrow> frame \<Rightarrow> frame \<Rightarrow> pyplot \<Rightarrow> (error + unit) \<times> pyplot" where
  "plot_forecast g df_train df_test predicted plt =
     (let ax = subplots plt
      in case frame_plot df_test ''ds'' ''y'' ''Truth'' ax of
        Inl e \<Rightarrow> (Inl e, ax)
      | Inr ax1 \<Rightarrow>
     (case frame_plot predicted ''ds'' ''yhat'' ''Prediction + 95% CI'' ax1 of
        Inl e \<Rightarrow> (Inl e, ax1)
      | Inr ax2 \<Rightarrow>
     (case getitem predicted ''ds'' of
        Inl e \<Rightarrow> (Inl e, ax2)
      | Inr x \<Rightarrow>
     (case getitem predicted ''yhat_upper'' of
        Inl e \<Rightarrow> (Inl e, ax2)
      | Inr y1 \<Rightarrow>
     (case getitem predicted ''yhat_lower'' of
        Inl e \<Rightarrow> (Inl e, ax2)
      | Inr y2 \<Rightarrow>
     (let ax3 = fill_between x y1 y2 ax2
      in case load_global g ''train_index'' of
        Inl e \<Rightarrow> (Inl e, ax3)
      | Inr v \<Rightarrow>
     (case minus_int v 100 of
        Inl e \<Rightarrow> (Inl e, ax3)
      | Inr start \<Rightarrow>
     (case frame_plot (iloc df_train (Some start) None) ''ds'' ''y'' ''_nolegend_'' ax3 of
        Inl e \<Rightarrow> (Inl e, ax3)
      | Inr ax4 \<Rightarrow>
          (Inr (), savefig ''store_data_forecast.png'' (ax4\<lparr>xlabel := ''Date'', ylabel := ''Sales''\<rparr>))))))))))"

text \<open>
  A forecast frame with the columns the chart reads, one that lacks \<open>yhat\<close>, and a
  plotting state with nothing drawn and nothing saved.
\<close>

definition sample_forecast :: frame where
  "sample_forecast =
     \<lparr>columns = [''ds'', ''yhat'', ''yhat_lower'', ''yhat_upper''],
      rows = [(0, [TimeC 0, IntC 10, IntC 8, IntC 12]),
              (1, [TimeC 86400000000000, IntC 11, IntC 9, IntC 13])]\<rparr>"

definition forecast_without_yhat :: frame where
  "forecast_without_yhat =
     \<lparr>columns = [''ds'', ''yhat_lower'', ''yhat_upper''],
      rows = [(0, [TimeC 0, IntC 8, IntC 12])]\<rparr>"

definition blank_pyplot :: pyplot where
  "blank_pyplot = \<lparr>artists = [], xlabel = [], ylabel = [], saved = Map.empty\<rparr>"


section \<open>Sample inputs for the fit step\<close>

text \<open>
  A synthetic series of \<open>n\<close> daily rows, the float nearest to 0.8, the seasonality
  dictionary of the script, a tracker with no run, and two stand-ins for the libraries:
  one whose calls all succeed (its forecast is the frame it is given) and one whose
  \<open>fit\<close> raises.
\<close>

definition daily_series :: "nat \<Rightarrow> frame" where
  "daily_series n =
     \<lparr>columns = [''ds'', ''y''],
      rows = map (\<lambda>i. (int i, [TimeC (86400000000000 * int i), IntC (int i)])) [0..<n]\<rparr>"

definition fraction_0_8 :: double where
  "fraction_0_8 = 0x3FE999999999999A"

definition sample_seasonality :: "string \<rightharpoonup> bool" where
  "sample_seasonality = [''yearly'' \<mapsto> True, ''weekly'' \<mapsto> True, ''daily'' \<mapsto> False]"

definition empty_tracker :: "(frame, int) tracker" where
  "empty_tracker =
     \<lparr>active_run_stack = [], next_run_id = 0, status = Map.empty,
      metrics = [], models = [], printed_uris = []\<rparr>"

definition sample_libraries :: "(frame, unit, unit, int) libraries" where
  "sample_libraries =
     \<lparr>Prophet = (\<lambda>yearly weekly daily width. \<lparr>columns = [], rows = []\<rparr>),
      fit = (\<lambda>m df. Inr df),
      cross_validation = (\<lambda>m initial period horizon. Inr ()),
      performance_metrics = (\<lambda>cv. Inr ()),
      loc = (\<lambda>pm i c. Inr 0),
      predict = (\<lambda>m df. Inr df),
      store_metric = (\<lambda>run key v. None),
      store_model = (\<lambda>run path m. None)\<rparr>"

definition failing_libraries :: "(frame, unit, unit, int) libraries" where
  "failing_libraries = sample_libraries\<lparr>fit := (\<lambda>m df. Inl (ValueError ''fit''))\<rparr>"


section \<open>Properties\<close>

subsection \<open>Auxiliary facts about frames\<close>

lemma cell_at_cong_columns: "columns a = columns b \<Longrightarrow> cell_at a c = cell_at b c"
  by (rule ext) (simp add: cell_at_def)

lemma time_cell_collapse: "is_time c \<Longrightarrow> TimeC (the_time c) = c"
  by (cases c) simp_all

lemma sort_values_Inr:
  assumes "sort_values df label = Inr out"
  shows "columns out = columns df"
    and "count_list (columns df) label = 1"
    and "list_all (\<lambda>r. is_time (cell_at df label r)) (filter (\<lambda>r. cell_at df label r \<noteq> NaT) (rows df))"
    and "rows out = sort_key (\<lambda>r. the_time (cell_at df label r)) (filter (\<lambda>r. cell_at df label r \<noteq> NaT) (rows df))
                    @ filter (\<lambda>r. cell_at df label r = NaT) (rows df)"
  using assms by (auto simp: sort_values_def Let_def split: if_splits)

lemma sort_values_column:
  assumes "sort_values df label = Inr out"
  shows "\<exists>ts k. map (cell_at out label) (rows out) = map TimeC ts @ replicate k NaT \<and> sorted ts"
proof -
  let ?key = "\<lambda>r. the_time (cell_at df label r)"
  let ?present = "filter (\<lambda>r. cell_at df label r \<noteq> NaT) (rows df)"
  let ?missing = "filter (\<lambda>r. cell_at df label r = NaT) (rows df)"
  have same: "cell_at out label = cell_at df label"
    using sort_values_Inr(1) [OF assms] by (rule cell_at_cong_columns)
  have times: "list_all (\<lambda>r. is_time (cell_at df label r)) ?present"
    by (rule sort_values_Inr(3) [OF assms])
  have "map (cell_at df label) (sort_key ?key ?present) = map TimeC (map ?key (sort_key ?key ?present))"
    using times by (auto simp: list_all_iff time_cell_collapse)
  moreover have "map (cell_at df label) ?missing = replicate (length ?missing) NaT"
    by (simp add: map_replicate_const [symmetric] cong: map_cong)
  moreover have "sorted (map ?key (sort_key ?key ?present))"
    by (rule sorted_sort_key)
  ultimately show ?thesis
    using sort_values_Inr(4) [OF assms] same by (metis map_append)
qed

lemma prep_store_data_Inr:
  assumes "prep_store_data parse df store_id store_open = (df', Inr out)"
  obtains stamps where
    "''Date'' \<in> set (columns df)"
    "to_datetime parse (map (cell_at df ''Date'') (rows df)) = Inr stamps"
    "df' = rename (setitem df ''Date'' stamps) canonical_names"
    "''Store'' \<in> set (columns df')"
    "''Open'' \<in> set (columns df')"
    "sort_values
       (reset_index (boolean_index df'
          (mask_and (eq_scalar (map (cell_at df' ''Store'') (rows df')) store_id)
                    (eq_scalar (map (cell_at df' ''Open'') (rows df')) store_open)))) ''ds'' = Inr out"
  using assms
  by (auto simp: prep_store_data_def getitem_def Let_def split: if_splits sum.splits)

lemma prep_store_data_labels:
  assumes "prep_store_data parse df store_id store_open = (df', Inr out)"
  shows "''Date'' \<in> set (columns df)" and "''Store'' \<in> set (columns df')" and "''Open'' \<in> set (columns df')"
  using assms
  by (auto simp: prep_store_data_def getitem_def Let_def split: if_splits sum.splits)

lemma canonical_rename: "(case canonical_names c of None \<Rightarrow> c | Some c' \<Rightarrow> c') = canonical_label c"
  by (simp add: canonical_names_def canonical_label_def)

lemma map_canonical_label:
  "map canonical_label cs = map (\<lambda>c. if c = ''Date'' then ''ds'' else if c = ''Sales'' then ''y'' else c) cs"
  by (simp add: canonical_label_def [abs_def])

lemma columns_rename_canonical: "columns (rename df canonical_names) = map canonical_label (columns df)"
  by (simp add: rename_def canonical_rename)

lemma columns_setitem: "columns (setitem df c vs) = columns df"
  by (simp add: setitem_def)

lemma rows_rename: "rows (rename df m) = rows df"
  by (simp add: rename_def)

lemma to_datetime_list_all2:
  "to_datetime parse cs = Inr vs \<Longrightarrow> list_all2 (\<lambda>c v. to_datetime_cell parse c = Inr v) cs vs"
  by (induction cs arbitrary: vs) (auto split: sum.splits)

lemma to_datetime_cell_stamp: "to_datetime_cell parse c = Inr v \<Longrightarrow> v = NaT \<or> is_time v"
  by (cases c) (auto split: option.splits)

lemma position_map_same:
  "(\<And>x. f x = c \<longleftrightarrow> x = c) \<Longrightarrow> position c (map f xs) = position c xs"
  by (induction xs) (simp_all, metis)

lemma position_neq:
  "a \<in> set xs \<Longrightarrow> a \<noteq> b \<Longrightarrow> position a xs \<noteq> position b xs"
  by (induction xs) auto

lemma position_less: "a \<in> set xs \<Longrightarrow> position a xs < length xs"
  by (induction xs) auto

lemma count_canonical_ds: "''Date'' \<in> set xs \<Longrightarrow> 1 \<le> count_list (map canonical_label xs) ''ds''"
  by (induction xs) (auto simp: canonical_label_def)

lemma count_canonical_ds_one:
  "distinct xs \<Longrightarrow> ''Date'' \<in> set xs \<Longrightarrow> ''ds'' \<notin> set xs \<Longrightarrow> count_list (map canonical_label xs) ''ds'' = 1"
  by (induction xs) (auto simp: canonical_label_def count_list_0_iff)

lemma position_ds:
  "count_list (map canonical_label xs) ''ds'' = 1 \<Longrightarrow> ''Date'' \<in> set xs \<Longrightarrow>
   position ''ds'' (map canonical_label xs) = position ''Date'' xs"
proof (induction xs)
  case Nil
  then show ?case by simp
next
  case (Cons x xs)
  show ?case
  proof (cases "x = ''Date''")
    case True
    then show ?thesis by (simp add: canonical_label_def)
  next
    case False
    with Cons.prems have mem: "''Date'' \<in> set xs" by simp
    from count_canonical_ds [OF mem] Cons.prems(1) False
    have "canonical_label x \<noteq> ''ds''" and "count_list (map canonical_label xs) ''ds'' = 1"
      by (auto split: if_splits)
    with Cons.IH mem False show ?thesis by simp
  qed
qed

lemma filter_mask:
  "map fst (filter snd (zip xs (mask_and (eq_scalar (map f xs) a) (eq_scalar (map g xs) b))))
   = filter (\<lambda>x. f x = IntC a \<and> g x = IntC b) xs"
  by (induction xs) (simp_all add: mask_and_def eq_scalar_def)

lemma rows_boolean_index:
  "rows (boolean_index df
      (mask_and (eq_scalar (map (cell_at df ''Store'') (rows df)) a)
                (eq_scalar (map (cell_at df ''Open'') (rows df)) b)))
   = filter (matches df a b) (rows df)"
  unfolding boolean_index_def matches_def by (simp add: filter_mask)

lemma cells_reset_index: "map snd (rows (reset_index df)) = map snd (rows df)"
  by (simp add: reset_index_def)

lemma columns_reset_index: "columns (reset_index df) = columns df"
  by (simp add: reset_index_def)

lemma columns_boolean_index: "columns (boolean_index df keep) = columns df"
  by (simp add: boolean_index_def)

lemma sort_values_mset:
  assumes "sort_values df label = Inr out"
  shows "mset (rows out) = mset (rows df)"
proof -
  let ?P = "\<lambda>r. cell_at df label r \<noteq> NaT"
  have "mset (rows out) = filter_mset ?P (mset (rows df)) + filter_mset (\<lambda>r. \<not> ?P r) (mset (rows df))"
    using sort_values_Inr(4) [OF assms] by simp
  then show ?thesis
    using multiset_partition [of "mset (rows df)" ?P] by simp
qed

lemma prep_store_data_cells:
  assumes "prep_store_data parse df store_id store_open = (df', Inr out)"
  shows "columns out = columns df'"
    and "mset (map snd (rows out)) = mset (map snd (filter (matches df' store_id store_open) (rows df')))"
proof -
  let ?sel = "boolean_index df'
          (mask_and (eq_scalar (map (cell_at df' ''Store'') (rows df')) store_id)
                    (eq_scalar (map (cell_at df' ''Open'') (rows df')) store_open))"
  from assms have sorted: "sort_values (reset_index ?sel) ''ds'' = Inr out"
    by (elim prep_store_data_Inr)
  show "columns out = columns df'"
    using sort_values_Inr(1) [OF sorted] by (simp add: columns_reset_index columns_boolean_index)
  have "mset (map snd (rows out)) = image_mset snd (mset (rows (reset_index ?sel)))"
    using sort_values_mset [OF sorted] by simp
  also have "\<dots> = mset (map snd (rows (reset_index ?sel)))"
    by simp
  also have "\<dots> = mset (map snd (filter (matches df' store_id store_open) (rows df')))"
    by (simp only: cells_reset_index rows_boolean_index)
  finally show "mset (map snd (rows out)) = mset (map snd (filter (matches df' store_id store_open) (rows df')))" .
qed

lemma prep_store_data_ds_unique:
  assumes "prep_store_data parse df store_id store_open = (df', Inr out)"
  shows "count_list (columns df') ''ds'' = 1"
proof -
  from assms obtain sel where "sort_values (reset_index (boolean_index df' sel)) ''ds'' = Inr out"
    by (elim prep_store_data_Inr)
  from sort_values_Inr(2) [OF this] show ?thesis
    by (simp add: columns_reset_index columns_boolean_index)
qed

lemma list_all2_map2:
  "list_all2 P xs ys \<Longrightarrow> list_all2 (\<lambda>x z. \<exists>y. P x y \<and> z = f x y) xs (map2 f xs ys)"
  by (induction rule: list_all2_induct) auto

lemma list_all2_in_set:
  "list_all2 P xs ys \<Longrightarrow> x \<in> set xs \<Longrightarrow> \<exists>y \<in> set ys. P x y"
  by (induction rule: list_all2_induct) auto

lemma list_all2_in_set2:
  "list_all2 P xs ys \<Longrightarrow> y \<in> set ys \<Longrightarrow> \<exists>x \<in> set xs. P x y"
  by (induction rule: list_all2_induct) auto

lemma stamped_iff:
  "stamped parse df r r' \<longleftrightarrow>
     (fst r' = fst r \<and>
      (\<exists>v. to_datetime_cell parse (cell_at df ''Date'' r) = Inr v \<and>
           snd r' = (snd r)[position ''Date'' (columns df) := v]))"
  by (cases r') (auto simp: stamped_def split: sum.splits)

lemma stamped_rows:
  assumes "to_datetime parse (map (cell_at df ''Date'') (rows df)) = Inr stamps"
  shows "list_all2 (stamped parse df) (rows df) (rows (rename (setitem df ''Date'' stamps) canonical_names))"
proof -
  have "list_all2 (\<lambda>r v. to_datetime_cell parse (cell_at df ''Date'' r) = Inr v) (rows df) stamps"
    using to_datetime_list_all2 [OF assms] by (simp add: list_all2_map1)
  then have "list_all2 (\<lambda>r z. \<exists>v. to_datetime_cell parse (cell_at df ''Date'' r) = Inr v \<and>
                 z = (fst r, (snd r)[position ''Date'' (columns df) := v]))
               (rows df)
               (map2 (\<lambda>r v. (fst r, (snd r)[position ''Date'' (columns df) := v])) (rows df) stamps)"
    by (rule list_all2_map2)
  then have "list_all2 (stamped parse df) (rows df)
               (map2 (\<lambda>r v. (fst r, (snd r)[position ''Date'' (columns df) := v])) (rows df) stamps)"
    by (rule list_all2_mono) (auto simp: stamped_def)
  then show ?thesis
    by (simp add: rows_rename setitem_def)
qed

lemma prep_store_data_input:
  assumes "prep_store_data parse df store_id store_open = (df', Inr out)"
  shows "columns df' = map canonical_label (columns df)"
    and "list_all2 (stamped parse df) (rows df) (rows df')"
proof -
  from assms obtain stamps where
    conv: "to_datetime parse (map (cell_at df ''Date'') (rows df)) = Inr stamps" and
    df': "df' = rename (setitem df ''Date'' stamps) canonical_names"
    by (elim prep_store_data_Inr)
  show "columns df' = map canonical_label (columns df)"
    by (simp add: df' columns_rename_canonical columns_setitem)
  have "list_all2 (\<lambda>r v. to_datetime_cell parse (cell_at df ''Date'' r) = Inr v) (rows df) stamps"
    using to_datetime_list_all2 [OF conv] by (simp add: list_all2_map1)
  then have "list_all2 (\<lambda>r z. \<exists>v. to_datetime_cell parse (cell_at df ''Date'' r) = Inr v \<and>
                 z = (fst r, (snd r)[position ''Date'' (columns df) := v]))
               (rows df)
               (map2 (\<lambda>r v. (fst r, (snd r)[position ''Date'' (columns df) := v])) (rows df) stamps)"
    by (rule list_all2_map2)
  then have "list_all2 (stamped parse df) (rows df)
               (map2 (\<lambda>r v. (fst r, (snd r)[position ''Date'' (columns df) := v])) (rows df) stamps)"
    by (rule list_all2_mono) (auto simp: stamped_def)
  then show "list_all2 (stamped parse df) (rows df) (rows df')"
    by (simp add: df' rows_rename setitem_def)
qed

lemma stamped_other_cell:
  assumes "stamped parse df r r'" and "columns df' = map canonical_label (columns df)"
    and "''Date'' \<in> set (columns df)" and "c \<noteq> ''Date''" and "c \<noteq> ''Sales''" and "c \<noteq> ''ds''" and "c \<noteq> ''y''"
  shows "cell_at df' c r' = cell_at df c r"
proof -
  have "position c (map canonical_label (columns df)) = position c (columns df)"
    using assms(4-7) by (intro position_map_same) (auto simp: canonical_label_def)
  moreover have "position ''Date'' (columns df) \<noteq> position c (columns df)"
    using assms(3,4) by (intro position_neq) auto
  ultimately show ?thesis
    using assms(1,2) by (auto simp: stamped_def cell_at_def split: sum.splits)
qed

lemma stamped_matches:
  assumes "stamped parse df r r'" and "columns df' = map canonical_label (columns df)"
    and "''Date'' \<in> set (columns df)"
  shows "matches df' a b r' = matches df a b r"
  using stamped_other_cell [OF assms, of "''Store''"] stamped_other_cell [OF assms, of "''Open''"]
  by (simp add: matches_def)

lemma stamped_ds_cell:
  assumes "stamped parse df r r'" and "columns df' = map canonical_label (columns df)"
    and "''Date'' \<in> set (columns df)" and "count_list (columns df') ''ds'' = 1"
    and "length (snd r) = length (columns df)"
  shows "Inr (cell_at df' ''ds'' r') = to_datetime_cell parse (cell_at df ''Date'' r)"
proof -
  have "position ''ds'' (columns df') = position ''Date'' (columns df)"
    using assms(2-4) by (simp add: position_ds)
  moreover have "position ''Date'' (columns df) < length (snd r)"
    using assms(3,5) by (simp add: position_less)
  ultimately show ?thesis
    using assms(1) by (auto simp: stamped_def cell_at_def split: sum.splits)
qed

lemma stamped_filter_ds:
  assumes "list_all2 (stamped parse df) xs ys" and "columns df' = map canonical_label (columns df)"
    and "''Date'' \<in> set (columns df)" and "count_list (columns df') ''ds'' = 1"
    and "list_all (\<lambda>r. length (snd r) = length (columns df)) xs"
  shows "map Inr (map (cell_at df' ''ds'') (filter (matches df' a b) ys))
         = map (\<lambda>r. to_datetime_cell parse (cell_at df ''Date'' r)) (filter (matches df a b) xs)"
  using assms(1,5)
proof (induction rule: list_all2_induct)
  case Nil
  then show ?case by simp
next
  case (Cons x xs y ys)
  from Cons.prems have len: "length (snd x) = length (columns df)" and rest: "list_all (\<lambda>r. length (snd r) = length (columns df)) xs"
    by simp_all
  have m: "matches df' a b y = matches df a b x"
    using Cons.hyps(1) assms(2,3) by (rule stamped_matches)
  have d: "Inr (cell_at df' ''ds'' y) = to_datetime_cell parse (cell_at df ''Date'' x)"
    using Cons.hyps(1) assms(2,3,4) len by (rule stamped_ds_cell)
  show ?case
    using Cons.IH [OF rest] m d by simp
qed

lemma stamped_filter_length:
  assumes "list_all2 (stamped parse df) xs ys" and "columns df' = map canonical_label (columns df)"
    and "''Date'' \<in> set (columns df)"
  shows "length (filter (matches df' a b) ys) = length (filter (matches df a b) xs)"
  using assms(1)
proof (induction rule: list_all2_induct)
  case Nil
  then show ?case by simp
next
  case (Cons x xs y ys)
  have "matches df' a b y = matches df a b x"
    using Cons.hyps(1) assms(2,3) by (rule stamped_matches)
  with Cons.IH show ?case by simp
qed

lemma prep_store_data_unfold:
  assumes "''Date'' \<in> set (columns df)" and "''Store'' \<in> set (columns df)" and "''Open'' \<in> set (columns df)"
    and "to_datetime parse (map (cell_at df ''Date'') (rows df)) = Inr stamps"
    and "df' = rename (setitem df ''Date'' stamps) canonical_names"
  shows "prep_store_data parse df store_id store_open =
           (df', sort_values (reset_index (boolean_index df'
              (mask_and (eq_scalar (map (cell_at df' ''Store'') (rows df')) store_id)
                        (eq_scalar (map (cell_at df' ''Open'') (rows df')) store_open)))) ''ds'')"
proof -
  have "''Store'' \<in> set (columns df')" and "''Open'' \<in> set (columns df')"
    using assms(2,3,5) by (force simp: columns_rename_canonical columns_setitem canonical_label_def)+
  then show ?thesis
    using assms(1,4,5) by (simp add: prep_store_data_def getitem_def Let_def)
qed

lemma cell_at_cells: "snd r = snd r' \<Longrightarrow> columns a = columns b \<Longrightarrow> cell_at a c r = cell_at b c r'"
  by (simp add: cell_at_def)

lemmas frame_ops =
  prep_store_data_def getitem_def setitem_def rename_def canonical_names_def
  cell_at_def eq_scalar_def mask_and_def boolean_index_def reset_index_def sort_values_def Let_def

lemma sample_run:
  "prep_store_data sample_parser sample_frame 4 1 = (sample_frame_after, Inr sample_prepared)"
  by (simp add: prep_store_data_def sample_frame_def sample_parser_def sample_prepared_def
      sample_frame_after_def getitem_def setitem_def rename_def canonical_names_def
      cell_at_def eq_scalar_def mask_and_def boolean_index_def reset_index_def sort_values_def
      upt_rec)

lemma wf_sample_frame: "wf_frame sample_frame"
  by (simp add: wf_frame_def sample_frame_def)

text \<open>
  On a well-formed frame with the columns Date, Store and Open, no column ds and a Date
  column that converts, \<open>prep_store_data\<close> returns a frame: the column it sorts holds
  timestamps and missing values only, so the sort never meets a key it cannot order.
\<close>

lemma sort_values_succeeds:
  assumes "count_list (columns df) label = 1"
    and "\<And>r. r \<in> set (rows df) \<Longrightarrow> cell_at df label r = NaT \<or> is_time (cell_at df label r)"
  shows "\<exists>out. sort_values df label = Inr out"
proof -
  have "label \<in> set (columns df)"
    using assms(1) by (metis count_list_0_iff zero_neq_one)
  moreover have "list_all (\<lambda>r. is_time (cell_at df label r)) (filter (\<lambda>r. cell_at df label r \<noteq> NaT) (rows df))"
    using assms(2) by (auto simp: list_all_iff)
  ultimately show ?thesis
    using assms(1) by (simp add: sort_values_def Let_def)
qed

lemma prep_store_data_succeeds:
  assumes "wf_frame df"
    and "''Date'' \<in> set (columns df)" and "''Store'' \<in> set (columns df)" and "''Open'' \<in> set (columns df)"
    and "''ds'' \<notin> set (columns df)"
    and "to_datetime parse (map (cell_at df ''Date'') (rows df)) = Inr stamps"
  shows "\<exists>out. snd (prep_store_data parse df store_id store_open) = Inr out"
proof -
  define df' where "df' = rename (setitem df ''Date'' stamps) canonical_names"
  define df_store where "df_store = reset_index (boolean_index df'
              (mask_and (eq_scalar (map (cell_at df' ''Store'') (rows df')) store_id)
                        (eq_scalar (map (cell_at df' ''Open'') (rows df')) store_open)))"
  have cols: "columns df' = map canonical_label (columns df)"
    by (simp add: df'_def columns_rename_canonical columns_setitem)
  have cols_store: "columns df_store = columns df'"
    by (simp add: df_store_def columns_reset_index columns_boolean_index)
  have st: "list_all2 (stamped parse df) (rows df) (rows df')"
    unfolding df'_def by (rule stamped_rows [OF assms(6)])
  have one: "count_list (columns df') ''ds'' = 1"
    using assms(1,2,5) by (simp add: cols count_canonical_ds_one wf_frame_def)
  have "cell_at df_store ''ds'' r = NaT \<or> is_time (cell_at df_store ''ds'' r)"
    if "r \<in> set (rows df_store)" for r
  proof -
    have "set (map snd (rows df_store)) = set (map snd (filter (matches df' store_id store_open) (rows df')))"
      by (simp only: df_store_def cells_reset_index rows_boolean_index)
    moreover from that have "snd r \<in> set (map snd (rows df_store))"
      by simp
    ultimately have "snd r \<in> snd ` set (filter (matches df' store_id store_open) (rows df'))"
      by simp
    then obtain r' where r': "r' \<in> set (rows df')" "snd r = snd r'"
      by auto
    from list_all2_in_set2 [OF st r'(1)] obtain r0 where r0: "r0 \<in> set (rows df)" "stamped parse df r0 r'"
      by blast
    have len: "length (snd r0) = length (columns df)"
      using assms(1) r0(1) by (simp add: wf_frame_def list_all_iff)
    from stamped_ds_cell [OF r0(2) cols assms(2) one len]
    have "to_datetime_cell parse (cell_at df ''Date'' r0) = Inr (cell_at df' ''ds'' r')"
      by simp
    from to_datetime_cell_stamp [OF this] have "cell_at df' ''ds'' r' = NaT \<or> is_time (cell_at df' ''ds'' r')" .
    moreover have "cell_at df_store ''ds'' r = cell_at df' ''ds'' r'"
      using r'(2) cols_store by (rule cell_at_cells)
    ultimately show ?thesis by simp
  qed
  with one have "\<exists>out. sort_values df_store ''ds'' = Inr out"
    by (intro sort_values_succeeds) (simp_all add: cols_store)
  then show ?thesis
    using prep_store_data_unfold [OF assms(2,3,4,6) df'_def, of store_id store_open]
    by (simp add: df_store_def)
qed

subsection \<open>The prepared series\<close>

text \<open>
  C2, as claimed: \<open>prep_store_data\<close> leaves the frame passed in unchanged. It does not.
  After the call on the sample frame the object has the labels ds and y where it had Date
  and Sales, selecting Date from it raises KeyError, the cells that were date strings are
  timestamps, and a second call on the same object raises KeyError.
\<close>

theorem prep_store_data_changes_input:
  "columns sample_frame = [''Store'', ''DayOfWeek'', ''Date'', ''Sales'', ''Customers'', ''Open''] \<and>
   columns (fst (prep_store_data sample_parser sample_frame 4 1))
     = [''Store'', ''DayOfWeek'', ''ds'', ''y'', ''Customers'', ''Open''] \<and>
   getitem sample_frame ''Date''
     = Inr [StrC ''2015-07-31'', StrC ''2015-07-31'', StrC ''2015-07-30'', StrC ''2015-07-30''] \<and>
   getitem (fst (prep_store_data sample_parser sample_frame 4 1)) ''Date'' = Inl (KeyError ''Date'') \<and>
   getitem (fst (prep_store_data sample_parser sample_frame 4 1)) ''ds''
     = Inr [TimeC 1438300800000000000, TimeC 1438300800000000000,
            TimeC 1438214400000000000, TimeC 1438214400000000000] \<and>
   snd (prep_store_data sample_parser (fst (prep_store_data sample_parser sample_frame 4 1)) 4 1)
     = Inl (KeyError ''Date'')"
  by (simp add: sample_run)
    (simp add: sample_frame_def sample_frame_after_def getitem_def cell_at_def prep_store_data_def)

text \<open>
  C2, amended. The function is deterministic: the frame it returns and the state it leaves
  the argument in are functions of the frame, the store identifier, the open flag and the
  date parser. It is not free of side effects: when it returns, the frame object passed in
  has Date relabelled ds and Sales relabelled y, and every Date cell replaced by its
  timestamp. The number of rows, their order, their index labels and all other cells are
  as before.
\<close>

theorem prep_store_data_input_after:
  assumes "prep_store_data parse df store_id store_open = (df', Inr out)"
  shows "columns df' = map (\<lambda>c. if c = ''Date'' then ''ds'' else if c = ''Sales'' then ''y'' else c) (columns df)
       \<and> list_all2 (\<lambda>r r'. fst r' = fst r \<and>
             (\<exists>v. to_datetime_cell parse (cell_at df ''Date'' r) = Inr v \<and>
                  snd r' = (snd r)[position ''Date'' (columns df) := v]))
           (rows df) (rows df')"
proof -
  have "list_all2 (stamped parse df) (rows df) (rows df')"
    by (rule prep_store_data_input(2) [OF assms])
  then have "list_all2 (\<lambda>r r'. fst r' = fst r \<and>
             (\<exists>v. to_datetime_cell parse (cell_at df ''Date'' r) = Inr v \<and>
                  snd r' = (snd r)[position ''Date'' (columns df) := v]))
           (rows df) (rows df')"
    by (rule list_all2_mono) (simp add: stamped_iff)
  then show ?thesis
    using prep_store_data_input(1) [OF assms] by (simp add: map_canonical_label)
qed

theorem prep_store_data_input_after_witness:
  "prep_store_data sample_parser sample_frame 4 1 = (sample_frame_after, Inr sample_prepared) \<and>
   (columns sample_frame_after
     = map (\<lambda>c. if c = ''Date'' then ''ds'' else if c = ''Sales'' then ''y'' else c) (columns sample_frame) \<and>
   list_all2 (\<lambda>r r'. fst r' = fst r \<and>
        (\<exists>v. to_datetime_cell sample_parser (cell_at sample_frame ''Date'' r) = Inr v \<and>
             snd r' = (snd r)[position ''Date'' (columns sample_frame) := v]))
      (rows sample_frame) (rows sample_frame_after))"
  using sample_run prep_store_data_input_after [OF sample_run] by (rule conjI)

text \<open>
  C3, as claimed: the returned frame has the labels ds and y and no other. It does not: no
  line of \<open>prep_store_data\<close> drops a column. The sample frame has the four expected
  columns and two more, and all six are in the result.
\<close>

theorem prep_store_data_extra_columns:
  "snd (prep_store_data sample_parser sample_frame 4 1) = Inr sample_prepared \<and>
   columns sample_prepared = [''Store'', ''DayOfWeek'', ''ds'', ''y'', ''Customers'', ''Open''] \<and>
   columns sample_prepared \<noteq> [''ds'', ''y'']"
  by (simp add: sample_run) (simp add: sample_prepared_def)

text \<open>
  C3, amended. The labels of the returned frame are the labels of the input, in their
  order, with Date replaced by ds and Sales by y; every other column is kept. In
  particular ds, Store and Open are among them.
\<close>

theorem prep_store_data_keeps_columns:
  assumes "prep_store_data parse df store_id store_open = (df', Inr out)"
  shows "columns out = map (\<lambda>c. if c = ''Date'' then ''ds'' else if c = ''Sales'' then ''y'' else c) (columns df)
       \<and> ''ds'' \<in> set (columns out) \<and> ''Store'' \<in> set (columns out) \<and> ''Open'' \<in> set (columns out)"
proof -
  have cols: "columns out = columns df'"
    by (rule prep_store_data_cells(1) [OF assms])
  have "columns df' = map canonical_label (columns df)"
    by (rule prep_store_data_input(1) [OF assms])
  moreover have "''Store'' \<in> set (columns df')" and "''Open'' \<in> set (columns df')"
    and "''Date'' \<in> set (columns df)"
    using prep_store_data_labels [OF assms] by simp_all
  moreover have "''ds'' \<in> set (map canonical_label (columns df))"
    using \<open>''Date'' \<in> set (columns df)\<close> by (force simp: canonical_label_def)
  ultimately show ?thesis
    using cols by (simp add: map_canonical_label)
qed

theorem prep_store_data_keeps_columns_witness:
  "prep_store_data sample_parser sample_frame 4 1 = (sample_frame_after, Inr sample_prepared) \<and>
   (columns sample_prepared
      = map (\<lambda>c. if c = ''Date'' then ''ds'' else if c = ''Sales'' then ''y'' else c) (columns sample_frame)
    \<and> ''ds'' \<in> set (columns sample_prepared) \<and> ''Store'' \<in> set (columns sample_prepared)
    \<and> ''Open'' \<in> set (columns sample_prepared))"
  using sample_run prep_store_data_keeps_columns [OF sample_run] by (rule conjI)

text \<open>
  C4. Whenever \<open>prep_store_data\<close> returns a frame, every row of it has the requested
  store identifier and the requested open flag, and every row of the input that has both
  is in it, with its Date cell converted to the timestamp and its other cells unchanged
  (line 46 makes that conversion in the input object, so the rows of that object that have
  both are in the result as they are). The result has as many rows as the input has rows
  with both.
\<close>

theorem prep_store_data_selects:
  assumes "prep_store_data parse df store_id store_open = (df', Inr out)"
  shows "(\<forall>r \<in> set (rows out).
            cell_at out ''Store'' r = IntC store_id \<and> cell_at out ''Open'' r = IntC store_open)
       \<and> (\<forall>r \<in> set (rows df).
            cell_at df ''Store'' r = IntC store_id \<and> cell_at df ''Open'' r = IntC store_open \<longrightarrow>
            (\<exists>v. to_datetime_cell parse (cell_at df ''Date'' r) = Inr v \<and>
                 (snd r)[position ''Date'' (columns df) := v] \<in> snd ` set (rows out)))
       \<and> (\<forall>r \<in> set (rows df').
            cell_at df' ''Store'' r = IntC store_id \<and> cell_at df' ''Open'' r = IntC store_open \<longrightarrow>
            snd r \<in> snd ` set (rows out))
       \<and> length (rows out)
           = length (filter (\<lambda>r. cell_at df ''Store'' r = IntC store_id \<and> cell_at df ''Open'' r = IntC store_open)
               (rows df))"
proof -
  have cols: "columns out = columns df'"
    by (rule prep_store_data_cells(1) [OF assms])
  have cells: "snd ` set (rows out) = snd ` set (filter (matches df' store_id store_open) (rows df'))"
    using prep_store_data_cells(2) [OF assms] by (metis mset_eq_setD set_map)
  have renamed: "columns df' = map canonical_label (columns df)"
    by (rule prep_store_data_input(1) [OF assms])
  have date: "''Date'' \<in> set (columns df)"
    by (rule prep_store_data_labels(1) [OF assms])
  have "cell_at out ''Store'' r = IntC store_id \<and> cell_at out ''Open'' r = IntC store_open"
    if "r \<in> set (rows out)" for r
  proof -
    from that have "snd r \<in> snd ` set (rows out)"
      by simp
    with cells obtain r' where "r' \<in> set (rows df')" "matches df' store_id store_open r'" "snd r = snd r'"
      by auto
    then show ?thesis
      using cols by (simp add: matches_def cell_at_def)
  qed
  moreover have "\<exists>v. to_datetime_cell parse (cell_at df ''Date'' r) = Inr v \<and>
                 (snd r)[position ''Date'' (columns df) := v] \<in> snd ` set (rows out)"
    if "r \<in> set (rows df)" and "cell_at df ''Store'' r = IntC store_id \<and> cell_at df ''Open'' r = IntC store_open" for r
  proof -
    from list_all2_in_set [OF prep_store_data_input(2) [OF assms] that(1)]
    obtain r' where r': "r' \<in> set (rows df')" "stamped parse df r r'" by blast
    have "matches df' store_id store_open r'"
      using stamped_matches [OF r'(2) renamed date] that(2) by (simp add: matches_def)
    with r'(1) have mem: "snd r' \<in> snd ` set (rows out)"
      by (simp add: cells)
    from r'(2) obtain v where "to_datetime_cell parse (cell_at df ''Date'' r) = Inr v"
      and "snd r' = (snd r)[position ''Date'' (columns df) := v]"
      unfolding stamped_iff by blast
    with mem show ?thesis
      by auto
  qed
  moreover have "snd r \<in> snd ` set (rows out)"
    if "r \<in> set (rows df')" and "cell_at df' ''Store'' r = IntC store_id \<and> cell_at df' ''Open'' r = IntC store_open"
    for r
    using that by (simp add: cells matches_def)
  moreover have "length (rows out)
           = length (filter (\<lambda>r. cell_at df ''Store'' r = IntC store_id \<and> cell_at df ''Open'' r = IntC store_open)
               (rows df))"
  proof -
    have "length (rows out) = length (filter (matches df' store_id store_open) (rows df'))"
      using prep_store_data_cells(2) [OF assms] by (metis length_map mset_eq_length)
    also have "\<dots> = length (filter (matches df store_id store_open) (rows df))"
      using prep_store_data_input(2) [OF assms] renamed date by (rule stamped_filter_length)
    finally show ?thesis
      by (simp add: matches_def [abs_def])
  qed
  ultimately show ?thesis by blast
qed

theorem prep_store_data_selects_witness:
  "prep_store_data sample_parser sample_frame 4 1 = (sample_frame_after, Inr sample_prepared) \<and>
   rows sample_prepared
     = [(1, [IntC 4, IntC 4, TimeC 1438214400000000000, IntC 10387, IntC 1276, IntC 1]),
        (0, [IntC 4, IntC 5, TimeC 1438300800000000000, IntC 13995, IntC 1498, IntC 1])] \<and>
   cell_at sample_prepared ''Store''
     (0, [IntC 4, IntC 5, TimeC 1438300800000000000, IntC 13995, IntC 1498, IntC 1]) = IntC 4 \<and>
   cell_at sample_prepared ''Open''
     (0, [IntC 4, IntC 5, TimeC 1438300800000000000, IntC 13995, IntC 1498, IntC 1]) = IntC 1 \<and>
   (2, [IntC 4, IntC 4, StrC ''2015-07-30'', IntC 10387, IntC 1276, IntC 1]) \<in> set (rows sample_frame) \<and>
   [IntC 4, IntC 4, TimeC 1438214400000000000, IntC 10387, IntC 1276, IntC 1]
     \<in> snd ` set (rows sample_prepared) \<and>
   length (rows sample_prepared) = 2"
proof -
  let ?out = "(0, [IntC 4, IntC 5, TimeC 1438300800000000000, IntC 13995, IntC 1498, IntC 1]) :: row"
  let ?in = "(2, [IntC 4, IntC 4, StrC ''2015-07-30'', IntC 10387, IntC 1276, IntC 1]) :: row"
  note selects = prep_store_data_selects [OF sample_run]
  have out: "?out \<in> set (rows sample_prepared)"
    by (simp add: sample_prepared_def)
  have inp: "?in \<in> set (rows sample_frame)"
    by (simp add: sample_frame_def)
  have match: "cell_at sample_frame ''Store'' ?in = IntC 4 \<and> cell_at sample_frame ''Open'' ?in = IntC 1"
    by (simp add: sample_frame_def cell_at_def)
  from selects out
  have "cell_at sample_prepared ''Store'' ?out = IntC 4 \<and> cell_at sample_prepared ''Open'' ?out = IntC 1"
    by blast
  moreover from selects inp match
  obtain v where "to_datetime_cell sample_parser (cell_at sample_frame ''Date'' ?in) = Inr v"
    and "(snd ?in)[position ''Date'' (columns sample_frame) := v] \<in> snd ` set (rows sample_prepared)"
    by blast
  then have "[IntC 4, IntC 4, TimeC 1438214400000000000, IntC 10387, IntC 1276, IntC 1]
     \<in> snd ` set (rows sample_prepared)"
    by (auto simp: sample_frame_def cell_at_def sample_parser_def)
  moreover have "rows sample_prepared
     = [(1, [IntC 4, IntC 4, TimeC 1438214400000000000, IntC 10387, IntC 1276, IntC 1]),
        (0, [IntC 4, IntC 5, TimeC 1438300800000000000, IntC 13995, IntC 1498, IntC 1])]"
    by (simp add: sample_prepared_def)
  moreover from selects have "length (rows sample_prepared)
      = length (filter (\<lambda>r. cell_at sample_frame ''Store'' r = IntC 4 \<and> cell_at sample_frame ''Open'' r = IntC 1)
          (rows sample_frame))"
    by blast
  then have "length (rows sample_prepared) = 2"
    by (simp add: sample_prepared_def)
  ultimately show ?thesis
    using sample_run inp by simp
qed

text \<open>
  C5. Whenever \<open>prep_store_data\<close> returns a frame, its \<open>ds\<close> column is sorted in
  non-decreasing order: the column consists of timestamps in ascending order, followed by
  the missing timestamps (pandas sorts them last), if there are any.
\<close>

theorem prep_store_data_sorted:
  assumes "prep_store_data parse df store_id store_open = (df', Inr out)"
  shows "\<exists>ts k. map (cell_at out ''ds'') (rows out) = map TimeC ts @ replicate k NaT \<and> sorted ts"
  using assms by (elim prep_store_data_Inr) (rule sort_values_column)

theorem prep_store_data_sorted_witness:
  "prep_store_data sample_parser sample_frame 4 1 = (sample_frame_after, Inr sample_prepared) \<and>
   (\<exists>ts k. map (cell_at sample_prepared ''ds'') (rows sample_prepared)
            = map TimeC ts @ replicate k NaT \<and> sorted ts)"
  using sample_run prep_store_data_sorted [OF sample_run] by simp

text \<open>
  C6, as claimed: the timestamps of the returned series are pairwise distinct. They need
  not be: no line of \<open>prep_store_data\<close> removes duplicates. Two input rows of store 4
  on the same day, both open, give two output rows with the same timestamp.
\<close>

theorem prep_store_data_duplicate_timestamps:
  "snd (prep_store_data sample_parser duplicate_frame 4 1)
     = Inr \<lparr>columns = [''Store'', ''ds'', ''y'', ''Open''],
            rows = [(0, [IntC 4, TimeC 1438300800000000000, IntC 13995, IntC 1]),
                    (1, [IntC 4, TimeC 1438300800000000000, IntC 13995, IntC 1])]\<rparr> \<and>
   \<not> distinct [TimeC 1438300800000000000, TimeC 1438300800000000000]"
  by (simp add: frame_ops duplicate_frame_def sample_parser_def upt_rec)

text \<open>
  C6, amended. If the frame is well formed and the input rows of the requested store and
  open flag have pairwise distinct timestamps (the raw data has one row per store and
  day), then the timestamps of the returned series are pairwise distinct.
\<close>

theorem prep_store_data_distinct:
  assumes "prep_store_data parse df store_id store_open = (df', Inr out)"
    and "wf_frame df"
    and "distinct (map (\<lambda>r. to_datetime_cell parse (cell_at df ''Date'' r))
           (filter (\<lambda>r. cell_at df ''Store'' r = IntC store_id \<and> cell_at df ''Open'' r = IntC store_open)
              (rows df)))"
  shows "distinct (map (cell_at out ''ds'') (rows out))"
proof -
  let ?i = "position ''ds'' (columns df')"
  let ?sel = "filter (matches df' store_id store_open) (rows df')"
  have cols: "columns out = columns df'"
    by (rule prep_store_data_cells(1) [OF assms(1)])
  have eq_out: "map (cell_at out ''ds'') (rows out) = map (\<lambda>cs. cs ! ?i) (map snd (rows out))"
    by (simp add: cell_at_def cols)
  have eq_sel: "map (cell_at df' ''ds'') ?sel = map (\<lambda>cs. cs ! ?i) (map snd ?sel)"
    by (simp add: cell_at_def)
  have "mset (map (\<lambda>cs. cs ! ?i) (map snd (rows out))) = mset (map (\<lambda>cs. cs ! ?i) (map snd ?sel))"
    using prep_store_data_cells(2) [OF assms(1)] by (metis mset_map)
  then have perm: "mset (map (cell_at out ''ds'') (rows out)) = mset (map (cell_at df' ''ds'') ?sel)"
    by (simp only: eq_out eq_sel)
  have "map Inr (map (cell_at df' ''ds'') ?sel)
        = map (\<lambda>r. to_datetime_cell parse (cell_at df ''Date'' r)) (filter (matches df store_id store_open) (rows df))"
    using prep_store_data_input(2) [OF assms(1)] prep_store_data_input(1) [OF assms(1)]
      prep_store_data_labels(1) [OF assms(1)] prep_store_data_ds_unique [OF assms(1)]
  proof (rule stamped_filter_ds)
    show "list_all (\<lambda>r. length (snd r) = length (columns df)) (rows df)"
      using assms(2) by (simp add: wf_frame_def)
  qed
  with assms(3) have "distinct (map (Inr :: cell \<Rightarrow> error + cell) (map (cell_at df' ''ds'') ?sel))"
    by (simp add: matches_def [abs_def])
  then have "distinct (map (cell_at df' ''ds'') ?sel)"
    by (rule distinct_map [THEN iffD1, THEN conjunct1])
  with perm show ?thesis
    by (metis mset_eq_imp_distinct_iff)
qed

theorem prep_store_data_distinct_witness:
  "prep_store_data sample_parser sample_frame 4 1 = (sample_frame_after, Inr sample_prepared) \<and>
   wf_frame sample_frame \<and>
   distinct (map (\<lambda>r. to_datetime_cell sample_parser (cell_at sample_frame ''Date'' r))
           (filter (\<lambda>r. cell_at sample_frame ''Store'' r = IntC 4 \<and> cell_at sample_frame ''Open'' r = IntC 1)
              (rows sample_frame))) \<and>
   distinct (map (cell_at sample_prepared ''ds'') (rows sample_prepared))"
proof -
  have d: "distinct (map (\<lambda>r. to_datetime_cell sample_parser (cell_at sample_frame ''Date'' r))
           (filter (\<lambda>r. cell_at sample_frame ''Store'' r = IntC 4 \<and> cell_at sample_frame ''Open'' r = IntC 1)
              (rows sample_frame)))"
    by (simp add: sample_frame_def cell_at_def sample_parser_def)
  show ?thesis
    using sample_run wf_sample_frame d prep_store_data_distinct [OF sample_run wf_sample_frame d]
    by simp
qed

text \<open>
  C8, as claimed: on every frame with no row of the requested store the call raises no
  error and returns an empty frame. Not on every frame: without a Date column line 46
  raises KeyError, a Date string the parser rejects raises ValueError there, and with a
  column already labelled ds line 51 raises ValueError because the label is then not
  unique. None of the three frames has a row of store 4.
\<close>

theorem prep_store_data_absent_store_raises:
  "snd (prep_store_data sample_parser no_date_frame 4 1) = Inl (KeyError ''Date'') \<and>
   snd (prep_store_data sample_parser bad_date_frame 4 1) = Inl (ValueError ''yesterday'') \<and>
   snd (prep_store_data sample_parser extra_ds_frame 4 1) = Inl (ValueError ''ds'')"
  by (simp add: frame_ops no_date_frame_def bad_date_frame_def extra_ds_frame_def sample_parser_def upt_rec)

text \<open>
  C8, amended. On a frame that has the columns Date, Store and Open under pairwise
  different labels, none of them ds, and whose Date column converts, a store identifier
  that no row has raises no error: the call returns the frame with the renamed labels and
  no rows.
\<close>

theorem prep_store_data_empty:
  assumes "''Date'' \<in> set (columns df)" and "''Store'' \<in> set (columns df)" and "''Open'' \<in> set (columns df)"
    and "''ds'' \<notin> set (columns df)" and "distinct (columns df)"
    and "to_datetime parse (map (cell_at df ''Date'') (rows df)) = Inr stamps"
    and "\<forall>r \<in> set (rows df). cell_at df ''Store'' r \<noteq> IntC store_id"
  shows "snd (prep_store_data parse df store_id store_open)
         = Inr \<lparr>columns = map (\<lambda>c. if c = ''Date'' then ''ds'' else if c = ''Sales'' then ''y'' else c) (columns df),
                rows = []\<rparr>"
proof -
  define df' where "df' = rename (setitem df ''Date'' stamps) canonical_names"
  have cols: "columns df' = map canonical_label (columns df)"
    by (simp add: df'_def columns_rename_canonical columns_setitem)
  have st: "list_all2 (stamped parse df) (rows df) (rows df')"
    unfolding df'_def by (rule stamped_rows [OF assms(6)])
  have "\<not> matches df' store_id store_open r'" if "r' \<in> set (rows df')" for r'
  proof -
    from list_all2_in_set2 [OF st that] obtain r where r: "r \<in> set (rows df)" "stamped parse df r r'"
      by blast
    from stamped_matches [OF r(2) cols assms(1)] assms(7) r(1) show ?thesis
      by (simp add: matches_def)
  qed
  then have none: "filter (matches df' store_id store_open) (rows df') = []"
    by (simp add: filter_empty_conv)
  have one: "count_list (columns df') ''ds'' = 1"
    using assms(1,4,5) by (simp add: cols count_canonical_ds_one)
  then have mem: "''ds'' \<in> set (columns df')"
    by (metis count_list_0_iff zero_neq_one)
  have "sort_values (reset_index (boolean_index df'
              (mask_and (eq_scalar (map (cell_at df' ''Store'') (rows df')) store_id)
                        (eq_scalar (map (cell_at df' ''Open'') (rows df')) store_open)))) ''ds''
        = Inr \<lparr>columns = columns df', rows = []\<rparr>"
    using one mem
    by (simp add: sort_values_def reset_index_def columns_boolean_index rows_boolean_index none)
  then show ?thesis
    using prep_store_data_unfold [OF assms(1,2,3,6) df'_def, of store_id store_open]
    by (simp add: cols map_canonical_label)
qed

theorem prep_store_data_empty_witness:
  "''Date'' \<in> set (columns other_store_frame) \<and> ''Store'' \<in> set (columns other_store_frame) \<and>
   ''Open'' \<in> set (columns other_store_frame) \<and> ''ds'' \<notin> set (columns other_store_frame) \<and>
   distinct (columns other_store_frame) \<and>
   to_datetime sample_parser (map (cell_at other_store_frame ''Date'') (rows other_store_frame))
     = Inr [TimeC 1438300800000000000] \<and>
   rows other_store_frame = [(0, [IntC 3, StrC ''2015-07-31'', IntC 8314, IntC 1])] \<and>
   cell_at other_store_frame ''Store'' (0, [IntC 3, StrC ''2015-07-31'', IntC 8314, IntC 1]) \<noteq> IntC 4 \<and>
   snd (prep_store_data sample_parser other_store_frame 4 1)
     = Inr \<lparr>columns = [''Store'', ''ds'', ''y'', ''Open''], rows = []\<rparr>"
proof -
  have h: "''Date'' \<in> set (columns other_store_frame)" "''Store'' \<in> set (columns other_store_frame)"
    "''Open'' \<in> set (columns other_store_frame)" "''ds'' \<notin> set (columns other_store_frame)"
    "distinct (columns other_store_frame)"
    "to_datetime sample_parser (map (cell_at other_store_frame ''Date'') (rows other_store_frame))
     = Inr [TimeC 1438300800000000000]"
    "\<forall>r \<in> set (rows other_store_frame). cell_at other_store_frame ''Store'' r \<noteq> IntC 4"
    by (simp_all add: other_store_frame_def cell_at_def sample_parser_def)
  from prep_store_data_empty [OF h, of 1]
  have "snd (prep_store_data sample_parser other_store_frame 4 1)
     = Inr \<lparr>columns = [''Store'', ''ds'', ''y'', ''Open''], rows = []\<rparr>"
    by (simp add: other_store_frame_def)
  moreover have "rows other_store_frame = [(0, [IntC 3, StrC ''2015-07-31'', IntC 8314, IntC 1])]"
    and "cell_at other_store_frame ''Store'' (0, [IntC 3, StrC ''2015-07-31'', IntC 8314, IntC 1]) \<noteq> IntC 4"
    by (simp_all add: other_store_frame_def cell_at_def)
  ultimately show ?thesis
    using h(1-6) by simp
qed

subsection \<open>Auxiliary facts about the split index\<close>

text \<open>
  The digits of a positive integer bracket it between two powers of two. Rounding to the
  nearest float is monotone at every float: a value that is at most a float \<open>g\<close> of the
  same sign rounds to at most \<open>g\<close>. The product of a float below 1 and the float of a row
  count \<open>n\<close> therefore rounds to at most the float of \<open>n\<close>, and that one is at most \<open>n\<close>
  unless rounding \<open>n\<close> went up, in which case the product is small enough to round below
  \<open>n\<close> itself. Truncating a non-negative float is taking its floor.
\<close>

lemma bit_length_nonpos: "n \<le> 0 \<Longrightarrow> bit_length n = 0"
  by (simp add: bit_length.simps)

lemma bit_length_pos: "0 < n \<Longrightarrow> bit_length n = Suc (bit_length (n div 2))"
  by (subst bit_length.simps) simp

lemma bit_length_bounds: "0 < n \<Longrightarrow> 2 ^ (bit_length n - 1) \<le> n \<and> n < 2 ^ bit_length n"
proof (induction n rule: bit_length.induct)
  case (1 n)
  show ?case
  proof (cases "n = 1")
    case True
    then show ?thesis
      by (simp add: bit_length_pos bit_length_nonpos)
  next
    case False
    with "1.prems" have half: "0 < n div 2" by simp
    with "1.IH" "1.prems" have IH: "2 ^ (bit_length (n div 2) - 1) \<le> n div 2" "n div 2 < 2 ^ bit_length (n div 2)"
      by simp_all
    have pos: "0 < bit_length (n div 2)"
      using half by (simp add: bit_length_pos)
    then have "(2::int) ^ bit_length (n div 2) = 2 * 2 ^ (bit_length (n div 2) - 1)"
      by (cases "bit_length (n div 2)") simp_all
    with IH have "2 ^ bit_length (n div 2) \<le> n" "n < 2 * 2 ^ bit_length (n div 2)"
      by linarith+
    then show ?thesis
      using "1.prems" by (simp add: bit_length_pos)
  qed
qed

lemma bit_length_le: "0 \<le> n \<Longrightarrow> n < 2 ^ k \<Longrightarrow> bit_length n \<le> k"
proof (cases "n = 0")
  case True
  then show ?thesis by (simp add: bit_length_nonpos)
next
  case False
  assume "0 \<le> n" "n < 2 ^ k"
  with False have "0 < n" by simp
  from bit_length_bounds [OF this] \<open>n < 2 ^ k\<close> have "(2::int) ^ (bit_length n - 1) < 2 ^ k"
    by linarith
  then have "bit_length n - 1 < k"
    by (simp add: power_strict_increasing_iff)
  then show ?thesis by linarith
qed

lemma round_half_even_le:
  assumes "0 \<le> a" and "a \<le> K * 2 ^ s"
  shows "0 \<le> round_half_even a s \<and> round_half_even a s \<le> K"
proof -
  let ?q = "a div 2 ^ s" and ?r = "a mod 2 ^ s"
  have q0: "0 \<le> ?q"
    using assms(1) by (simp add: pos_imp_zdiv_nonneg_iff)
  have qK: "?q \<le> K"
    using assms(2) by (metis div_mult_self_is_m zdiv_mono1 zero_less_numeral zero_less_power nonzero_mult_div_cancel_right power_not_zero zero_neq_numeral)
  have "round_half_even a s \<le> K"
  proof (cases "?q = K")
    case True
    have "a = ?q * 2 ^ s + ?r" by (rule div_mult_mod_eq [symmetric])
    then have "a = K * 2 ^ s + ?r" by (simp only: True)
    with assms(2) have "?r \<le> 0" by linarith
    moreover have "0 \<le> ?r" by simp
    ultimately have "?r = 0" by linarith
    then show ?thesis
      using True by (simp add: round_half_even_def Let_def)
  next
    case False
    with qK have "?q + 1 \<le> K" by linarith
    then show ?thesis
      by (simp add: round_half_even_def Let_def)
  qed
  moreover have "0 \<le> round_half_even a s"
    using q0 by (simp add: round_half_even_def Let_def)
  ultimately show ?thesis by simp
qed

lemma pow2_less_exp:
  assumes "(2::rat) powi a < 2 powi b"
  shows "a < b"
proof (rule ccontr)
  assume "\<not> a < b"
  then have "b \<le> a" by simp
  then have "(2::rat) powi b \<le> 2 powi a"
    by (rule power_int_increasing) simp
  with assms show False by simp
qed

lemma dyadic_lower:
  assumes "0 < M"
  shows "(2::rat) powi (int (bit_length M) - 1 + E) \<le> of_int M * 2 powi E"
proof -
  have pos: "0 < bit_length M"
    using assms by (simp add: bit_length_pos)
  have "(2::int) ^ (bit_length M - 1) \<le> M"
    using bit_length_bounds [OF assms] by simp
  then have "(of_int ((2::int) ^ (bit_length M - 1)) :: rat) \<le> of_int M"
    by (simp only: of_int_le_iff)
  then have low: "(2::rat) ^ (bit_length M - 1) \<le> of_int M"
    by simp
  have "(2::rat) ^ (bit_length M - 1) = 2 powi (int (bit_length M) - 1)"
    using pos by (simp add: power_int_def nat_diff_distrib')
  with low have "(2::rat) powi (int (bit_length M) - 1) \<le> of_int M"
    by (simp only:)
  then have "(2::rat) powi (int (bit_length M) - 1) * 2 powi E \<le> of_int M * 2 powi E"
    by (rule mult_right_mono) simp
  then show ?thesis
    by (simp add: power_int_add)
qed

lemma round_half_even_cases:
  "round_half_even a s = a div 2 ^ s \<and> 2 * (a mod 2 ^ s) \<le> 2 ^ s \<or>
   round_half_even a s = a div 2 ^ s + 1 \<and> 2 ^ s \<le> 2 * (a mod 2 ^ s)"
  by (auto simp: round_half_even_def Let_def)

lemma div_mod_pow2: "(a::int) = (a div 2 ^ s) * 2 ^ s + a mod 2 ^ s"
  by (rule div_mult_mod_eq [symmetric])

lemma twice_div_mod_pow2: "2 * (a::int) = 2 * (a div 2 ^ s) * 2 ^ s + 2 * (a mod 2 ^ s)"
proof -
  have "2 * a = 2 * ((a div 2 ^ s) * 2 ^ s + a mod 2 ^ s)"
    by (simp only: div_mod_pow2 [of a s, symmetric])
  then show ?thesis
    by (simp only: distrib_left mult.assoc)
qed

lemma round_half_even_low: "(2 * round_half_even a s - 1) * 2 ^ s \<le> 2 * a"
proof -
  let ?q = "a div 2 ^ s" and ?r = "a mod 2 ^ s"
  have r0: "0 \<le> ?r" by simp
  note a = twice_div_mod_pow2 [of a s]
  have p: "(0::int) < 2 ^ s" by simp
  from round_half_even_cases [of a s] show ?thesis
  proof
    assume "round_half_even a s = ?q \<and> 2 * ?r \<le> 2 ^ s"
    then have "(2 * round_half_even a s - 1) * 2 ^ s = 2 * ?q * 2 ^ s - 2 ^ s"
      by (simp add: algebra_simps)
    with a r0 p show ?thesis by linarith
  next
    assume "round_half_even a s = ?q + 1 \<and> 2 ^ s \<le> 2 * ?r"
    then have "(2 * round_half_even a s - 1) * 2 ^ s = 2 * ?q * 2 ^ s + 2 ^ s" and "2 ^ s \<le> 2 * ?r"
      by (simp_all add: algebra_simps)
    with a show ?thesis by linarith
  qed
qed

lemma round_half_even_lt:
  assumes "2 * a < (2 * K - 1) * 2 ^ s"
  shows "round_half_even a s \<le> K - 1"
proof -
  let ?q = "a div 2 ^ s" and ?r = "a mod 2 ^ s"
  have r0: "0 \<le> ?r" by simp
  note a = twice_div_mod_pow2 [of a s]
  have p: "(0::int) < 2 ^ s" by simp
  have "(2 * ?q) * 2 ^ s < (2 * K - 1) * 2 ^ s"
    using a r0 assms by linarith
  then have "2 * ?q < 2 * K - 1"
    using p by (simp only: mult_less_cancel_right_pos)
  then have qK: "?q \<le> K - 1" by linarith
  show ?thesis
  proof (cases "?q = K - 1")
    case True
    have "2 * ?q * 2 ^ s = 2 * (K - 1) * 2 ^ s"
      by (simp only: True)
    also have "\<dots> = (2 * K - 1) * 2 ^ s - 2 ^ s"
      by (simp add: algebra_simps)
    finally have "2 * ?q * 2 ^ s = (2 * K - 1) * 2 ^ s - 2 ^ s" .
    with a assms have "2 * ?r < 2 ^ s" by linarith
    then show ?thesis
      using True by (simp add: round_half_even_def Let_def)
  next
    case False
    with qK have "?q + 1 \<le> K - 1" by linarith
    with round_half_even_cases [of a s] show ?thesis by linarith
  qed
qed

lemma round_half_even_between:
  "a div 2 ^ s \<le> round_half_even a s \<and> round_half_even a s \<le> a div 2 ^ s + 1"
  using round_half_even_cases [of a s] by linarith

lemma dyadic_upper:
  assumes "0 \<le> M"
  shows "of_int M * 2 powi E < (2::rat) powi (int (bit_length M) + E)"
proof (cases "M = 0")
  case True
  then show ?thesis by simp
next
  case False
  with assms have "0 < M" by simp
  from bit_length_bounds [OF this] have "M < 2 ^ bit_length M"
    by simp
  then have "(of_int M :: rat) < of_int (2 ^ bit_length M)"
    by (simp only: of_int_less_iff)
  then have "(of_int M :: rat) < 2 powi int (bit_length M)"
    by simp
  then have "(of_int M :: rat) * 2 powi E < 2 powi int (bit_length M) * 2 powi E"
    by (rule mult_strict_right_mono) simp
  then show ?thesis
    by (simp add: power_int_add)
qed

lemma nearest_nonneg:
  assumes "0 \<le> a"
  shows "nearest (Dyadic a E) =
     (if max (int (bit_length a) - 53) (- 1074 - E) \<le> 0 then Dyadic a E
      else Dyadic (round_half_even a (nat (max (int (bit_length a) - 53) (- 1074 - E))))
                  (E + max (int (bit_length a) - 53) (- 1074 - E)))"
proof -
  have sg: "sgn a * round_half_even a k = round_half_even a k" for k
  proof (cases "a = 0")
    case True
    then show ?thesis by (simp add: round_half_even_def)
  next
    case False
    with assms have "sgn a = 1" by simp
    then show ?thesis by simp
  qed
  have abs: "\<bar>a\<bar> = a"
    using assms by simp
  show ?thesis
    unfolding nearest_def dyadic.case abs sg Let_def ..
qed

lemma pow2_split:
  assumes "E \<le> E'"
  shows "(2::rat) powi E' = 2 powi E * 2 ^ nat (E' - E)"
proof -
  have "(2::rat) powi (E + int k) = 2 powi E * 2 ^ k" for k
    by (simp add: power_int_add)
  from this [of "nat (E' - E)"] assms show ?thesis
    by simp
qed

lemma dyadic_le_iff:
  assumes "E \<le> E'"
  shows "((of_int a :: rat) * 2 powi E \<le> of_int K * 2 powi E') = (a \<le> K * 2 ^ nat (E' - E))"
proof -
  have pos: "0 < (2::rat) powi E"
    by simp
  have "(of_int K :: rat) * 2 powi E' = of_int (K * 2 ^ nat (E' - E)) * 2 powi E"
    by (simp add: pow2_split [OF assms])
  then have "((of_int a :: rat) * 2 powi E \<le> of_int K * 2 powi E')
             = ((of_int a :: rat) * 2 powi E \<le> of_int (K * 2 ^ nat (E' - E)) * 2 powi E)"
    by (simp only:)
  also have "\<dots> = ((of_int a :: rat) \<le> of_int (K * 2 ^ nat (E' - E)))"
    using pos by (rule mult_le_cancel_right_pos)
  also have "\<dots> = (a \<le> K * 2 ^ nat (E' - E))"
    by (rule of_int_le_iff)
  finally show ?thesis .
qed

lemma dyadic_less_iff:
  assumes "E \<le> E'"
  shows "((of_int a :: rat) * 2 powi E < of_int K * 2 powi E') = (a < K * 2 ^ nat (E' - E))"
proof -
  have pos: "0 < (2::rat) powi E"
    by simp
  have "(of_int K :: rat) * 2 powi E' = of_int (K * 2 ^ nat (E' - E)) * 2 powi E"
    by (simp add: pow2_split [OF assms])
  then have "((of_int a :: rat) * 2 powi E < of_int K * 2 powi E')
             = ((of_int a :: rat) * 2 powi E < of_int (K * 2 ^ nat (E' - E)) * 2 powi E)"
    by (simp only:)
  also have "\<dots> = ((of_int a :: rat) < of_int (K * 2 ^ nat (E' - E)))"
    using pos by (rule mult_less_cancel_right_pos)
  also have "\<dots> = (a < K * 2 ^ nat (E' - E))"
    by (rule of_int_less_iff)
  finally show ?thesis .
qed

text \<open>
  Rounding a non-negative value \<open>a * 2 ^ E\<close>: the result is a multiple \<open>a' * 2 ^ E'\<close> of
  a unit \<open>2 ^ E'\<close> no smaller than \<open>2 ^ E\<close>. It is at most every multiple of the unit
  that the value does not exceed, at least every multiple that does not exceed the value,
  and below every multiple that lies more than half a unit above the value.
\<close>

lemma nearest_grid:
  assumes "0 \<le> a"
  obtains a' E' where
    "nearest (Dyadic a E) = Dyadic a' E'" and "0 \<le> a'" and "E \<le> E'"
    and "(E' = E \<and> a' = a \<and> bit_length a \<le> 53) \<or>
         (E < E' \<and> (E' = - 1074 \<or> (0 < a \<and> E' = int (bit_length a) - 53 + E)))"
    and "\<And>K. (of_int a :: rat) * 2 powi E \<le> of_int K * 2 powi E' \<Longrightarrow> a' \<le> K"
    and "\<And>K. (of_int K :: rat) * 2 powi E' \<le> of_int a * 2 powi E \<Longrightarrow> K \<le> a'"
    and "\<And>K. (of_int (2 * a) :: rat) * 2 powi E < of_int (2 * K - 1) * 2 powi E' \<Longrightarrow> a' \<le> K - 1"
proof (cases "max (int (bit_length a) - 53) (- 1074 - E) \<le> 0")
  case True
  have n: "nearest (Dyadic a E) = Dyadic a E"
    using True by (simp add: nearest_nonneg [OF assms])
  have pos: "0 < (2::rat) powi E" by simp
  have le: "a \<le> K" if "(of_int a :: rat) * 2 powi E \<le> of_int K * 2 powi E" for K
    using that pos by (simp only: mult_le_cancel_right_pos of_int_le_iff)
  have lt: "a \<le> K - 1" if "(of_int (2 * a) :: rat) * 2 powi E < of_int (2 * K - 1) * 2 powi E" for K
  proof -
    from that pos have "2 * a < 2 * K - 1"
      by (simp only: mult_less_cancel_right_pos of_int_less_iff)
    then show ?thesis by linarith
  qed
  have ge: "K \<le> a" if "(of_int K :: rat) * 2 powi E \<le> of_int a * 2 powi E" for K
    using that pos by (simp only: mult_le_cancel_right_pos of_int_le_iff)
  have "bit_length a \<le> 53"
    using True by simp
  then show ?thesis
    using n assms le lt ge by (intro that [of a E]) simp_all
next
  case False
  define sh where "sh = max (int (bit_length a) - 53) (- 1074 - E)"
  define a' where "a' = round_half_even a (nat sh)"
  define E' where "E' = E + sh"
  have sh: "0 < sh" using False unfolding sh_def by (simp only: not_le)
  have "nearest (Dyadic a E) = Dyadic (round_half_even a (nat (max (int (bit_length a) - 53) (- 1074 - E))))
                  (E + max (int (bit_length a) - 53) (- 1074 - E))"
    using False by (simp only: nearest_nonneg [OF assms] if_False)
  then have n: "nearest (Dyadic a E) = Dyadic a' E'"
    by (simp only: a'_def E'_def sh_def)
  have E: "E \<le> E'" "nat (E' - E) = nat sh"
    using sh by (simp_all add: E'_def)
  have pos: "0 < (2::rat) powi E" by simp
  have a'0: "0 \<le> a'"
    using round_half_even_between [of a "nat sh"] assms
    by (simp add: a'_def) (smt (verit) pos_imp_zdiv_nonneg_iff zero_less_numeral zero_less_power)
  have le: "a' \<le> K" if "(of_int a :: rat) * 2 powi E \<le> of_int K * 2 powi E'" for K
  proof -
    from that have "a \<le> K * 2 ^ nat sh"
      by (simp only: dyadic_le_iff [OF E(1)] E(2))
    from round_half_even_le [OF assms this] show ?thesis
      by (simp add: a'_def)
  qed
  have lt: "a' \<le> K - 1" if "(of_int (2 * a) :: rat) * 2 powi E < of_int (2 * K - 1) * 2 powi E'" for K
  proof -
    from that have "2 * a < (2 * K - 1) * 2 ^ nat sh"
      by (simp only: dyadic_less_iff [OF E(1)] E(2))
    then show ?thesis
      unfolding a'_def by (rule round_half_even_lt)
  qed
  have ge: "K \<le> a'" if "(of_int K :: rat) * 2 powi E' \<le> of_int a * 2 powi E" for K
  proof -
    have "(of_int K :: rat) * 2 powi E' = of_int (K * 2 ^ nat sh) * 2 powi E"
      by (simp add: pow2_split [OF E(1)] E(2))
    with that have "(of_int (K * 2 ^ nat sh) :: rat) * 2 powi E \<le> of_int a * 2 powi E"
      by (simp only:)
    then have "K * 2 ^ nat sh \<le> a"
      using pos by (simp only: mult_le_cancel_right_pos of_int_le_iff)
    then have "(K * 2 ^ nat sh) div 2 ^ nat sh \<le> a div 2 ^ nat sh"
      by (rule zdiv_mono1) simp
    then have "K \<le> a div 2 ^ nat sh"
      by simp
    with round_half_even_between [of a "nat sh"] show ?thesis
      by (simp add: a'_def)
  qed
  have shape: "(E' = E \<and> a' = a \<and> bit_length a \<le> 53) \<or>
         (E < E' \<and> (E' = - 1074 \<or> (0 < a \<and> E' = int (bit_length a) - 53 + E)))"
  proof (cases "int (bit_length a) - 53 \<le> - 1074 - E")
    case True
    then show ?thesis using sh by (simp add: E'_def sh_def)
  next
    case False
    then have s: "sh = int (bit_length a) - 53"
      by (simp add: sh_def)
    with sh have "a \<noteq> 0"
      by (auto simp: bit_length_nonpos)
    with assms s sh show ?thesis
      by (simp add: E'_def)
  qed
  show ?thesis
    using n a'0 E(1) shape le ge lt by (rule that)
qed

lemma quantum_bound:
  assumes "(E' = E \<and> a' = a \<and> bit_length a \<le> 53) \<or>
         (E < E' \<and> (E' = - 1074 \<or> (0 < a \<and> E' = int (bit_length a) - 53 + E)))"
    and "E \<le> T" and "- 1074 \<le> T" and "(of_int a :: rat) * 2 powi E < 2 powi (T + 53)"
  shows "E' \<le> T"
proof -
  have "E' \<le> T" if "0 < a" and "E' = int (bit_length a) - 53 + E"
  proof -
    from dyadic_lower [OF that(1), of E] assms(4)
    have "(2::rat) powi (int (bit_length a) - 1 + E) < 2 powi (T + 53)"
      by linarith
    then have "int (bit_length a) - 1 + E < T + 53"
      by (rule pow2_less_exp)
    with that(2) show ?thesis by linarith
  qed
  with assms(1,2,3) show ?thesis by auto
qed

lemma not_overflows_below:
  assumes "0 \<le> a" and "(of_int a :: rat) * 2 powi E < 2 powi 1024"
  shows "\<not> overflows (Dyadic a E)"
proof (cases "a = 0")
  case True
  then show ?thesis by (simp add: overflows_def)
next
  case False
  with assms(1) have "0 < a" by simp
  from dyadic_lower [OF this, of E] assms(2)
  have "(2::rat) powi (int (bit_length a) - 1 + E) < 2 powi 1024"
    by linarith
  then have "int (bit_length a) - 1 + E < 1024"
    by (rule pow2_less_exp)
  then show ?thesis
    using assms(1) by (simp add: overflows_def)
qed

lemma below_not_overflows:
  assumes "0 \<le> a" and "\<not> overflows (Dyadic a E)"
  shows "(of_int a :: rat) * 2 powi E < 2 powi 1024"
proof (cases "a = 0")
  case True
  then show ?thesis by simp
next
  case False
  with assms have "int (bit_length a) + E \<le> 1024"
    by (simp add: overflows_def)
  then have "(2::rat) powi (int (bit_length a) + E) \<le> 2 powi 1024"
    by (rule power_int_increasing) simp
  with dyadic_upper [OF assms(1), of E] show ?thesis
    by linarith
qed

lemma fraction_below_one:
  assumes "0 < m" and "m < 2 ^ 53" and "(of_int m :: rat) * 2 powi e < 1"
  shows "e < 0" and "(of_int m :: rat) * 2 powi e \<le> 1 - 2 powi (- 53)"
proof -
  show e: "e < 0"
  proof (rule ccontr)
    assume "\<not> e < 0"
    then have "(1::rat) \<le> 2 powi e"
      by (intro one_le_power_int) simp_all
    moreover have "(1::rat) \<le> of_int m"
      using assms(1) by simp
    ultimately have "(1::rat) * 1 \<le> of_int m * 2 powi e"
      by (intro mult_mono) simp_all
    with assms(3) show False by simp
  qed
  have "(of_int m :: rat) * 2 powi e < of_int 1 * 2 powi 0"
    using assms(3) by simp
  then have "m < 1 * 2 ^ nat (0 - e)"
    using e by (subst (asm) dyadic_less_iff) simp_all
  then have md: "m \<le> 2 ^ nat (- e) - 1"
    by simp
  show "(of_int m :: rat) * 2 powi e \<le> 1 - 2 powi (- 53)"
  proof (cases "- 53 \<le> e")
    case True
    have one: "(2::rat) ^ nat (- e) * 2 powi e = 1"
      using e by (simp add: power_int_def field_simps)
    from md have "(of_int m :: rat) \<le> of_int (2 ^ nat (- e) - 1)"
      by (simp only: of_int_le_iff)
    then have "(of_int m :: rat) * 2 powi e \<le> of_int (2 ^ nat (- e) - 1) * 2 powi e"
      by (rule mult_right_mono) simp
    also have "\<dots> = 2 ^ nat (- e) * 2 powi e - 2 powi e"
      by (simp add: algebra_simps)
    also have "\<dots> = 1 - 2 powi e"
      by (simp only: one)
    also have "\<dots> \<le> 1 - 2 powi (- 53)"
    proof -
      have "(2::rat) powi (- 53) \<le> 2 powi e"
        using True by (intro power_int_increasing) simp_all
      then show ?thesis by linarith
    qed
    finally show ?thesis .
  next
    case False
    then have "e \<le> - 54" by simp
    then have "(2::rat) powi e \<le> 2 powi (- 54)"
      by (intro power_int_increasing) simp_all
    moreover have "(of_int m :: rat) \<le> 2 ^ 53"
      using assms(2) by (metis less_imp_le of_int_le_iff of_int_numeral of_int_power)
    ultimately have "(of_int m :: rat) * 2 powi e \<le> 2 ^ 53 * 2 powi (- 54)"
      by (intro mult_mono) simp_all
    also have "\<dots> \<le> 1 - 2 powi (- 53)"
      by simp
    finally show ?thesis .
  qed
qed

lemma int_to_double_Inr:
  assumes "int_to_double n = Inr c"
  shows "c = Finite (nearest (Dyadic n 0))" and "\<not> overflows (nearest (Dyadic n 0))"
  using assms by (auto simp: int_to_double_def round_double_def split: if_splits)

lemma product_value:
  "(of_int (m * R) :: rat) * 2 powi (e + S) = (of_int m * 2 powi e) * (of_int R * 2 powi S)"
  by (simp add: power_int_add)

text \<open>The count converts exactly.\<close>

lemma product_le_exact:
  assumes m: "0 < m" and f: "(of_int m :: rat) * 2 powi e < 1" and e: "e < 0"
    and n: "0 \<le> n" "bit_length n \<le> 53"
    and grid: "nearest (Dyadic (m * n) e) = Dyadic a' E'"
      "(E' = e \<and> a' = m * n \<and> bit_length (m * n) \<le> 53) \<or>
         (e < E' \<and> (E' = - 1074 \<or> (0 < m * n \<and> E' = int (bit_length (m * n)) - 53 + e)))"
      "\<And>K. (of_int (m * n) :: rat) * 2 powi e \<le> of_int K * 2 powi E' \<Longrightarrow> a' \<le> K"
  shows "(of_int a' :: rat) * 2 powi E' \<le> of_int n"
proof -
  let ?x = "(of_int (m * n) :: rat) * 2 powi e"
  have n53: "n < 2 ^ 53"
  proof (cases "n = 0")
    case True
    then show ?thesis by simp
  next
    case False
    with n(1) have "0 < n" by simp
    from bit_length_bounds [OF this] have "n < 2 ^ bit_length n" by simp
    also have "(2::int) ^ bit_length n \<le> 2 ^ 53"
      using n(2) by (intro power_increasing) simp_all
    finally show ?thesis .
  qed
  have x: "?x = (of_int m * 2 powi e) * of_int n"
    using product_value [of m n e 0] by simp
  have "?x \<le> 1 * of_int n"
    unfolding x using f n(1) by (intro mult_right_mono) simp_all
  then have x_le: "?x \<le> of_int n"
    by simp
  have "(of_int n :: rat) < of_int (2 ^ 53)"
    using n53 by (simp only: of_int_less_iff)
  then have "(of_int n :: rat) < 2 powi (0 + 53)"
    by simp
  with x_le have "?x < 2 powi (0 + 53)"
    by linarith
  from quantum_bound [OF grid(2) _ _ this] e have E': "E' \<le> 0"
    by simp
  define K where "K = n * 2 ^ nat (- E')"
  have nK: "(of_int n :: rat) = of_int K * 2 powi E'"
    using E' by (simp add: K_def power_int_def field_simps)
  from x_le have "a' \<le> K"
    by (intro grid(3)) (simp only: nK)
  then have "(of_int a' :: rat) \<le> of_int K"
    by simp
  then have "(of_int a' :: rat) * 2 powi E' \<le> of_int K * 2 powi E'"
    by (rule mult_right_mono) simp
  then show ?thesis
    by (simp only: nK)
qed

text \<open>The count is rounded on conversion.\<close>

lemma product_le_rounded:
  assumes m: "0 < m" and F: "(of_int m :: rat) * 2 powi e \<le> 1 - 2 powi (- 53)" and e: "e < 0"
    and S: "0 < S" and R: "2 ^ 52 \<le> R" "R \<le> 2 ^ 53"
    and grid: "0 \<le> a'"
      "(E' = e + S \<and> a' = m * R \<and> bit_length (m * R) \<le> 53) \<or>
         (e + S < E' \<and> (E' = - 1074 \<or> (0 < m * R \<and> E' = int (bit_length (m * R)) - 53 + (e + S))))"
      "\<And>K. (of_int (m * R) :: rat) * 2 powi (e + S) \<le> of_int K * 2 powi E' \<Longrightarrow> a' \<le> K"
      "\<And>K. (of_int (2 * (m * R)) :: rat) * 2 powi (e + S) < of_int (2 * K - 1) * 2 powi E' \<Longrightarrow> a' \<le> K - 1"
  shows "2 * ((of_int a' :: rat) * 2 powi E') \<le> of_int (2 * R - 1) * 2 powi S"
proof -
  define P :: rat where "P = 2 powi S"
  define Fr :: rat where "Fr = of_int m * 2 powi e"
  define Rr :: rat where "Rr = of_int R"
  define xv :: rat where "xv = of_int (m * R) * 2 powi (e + S)"
  have P: "0 < P" by (simp add: P_def)
  have x: "xv = Fr * (Rr * P)"
    by (simp only: xv_def product_value Fr_def Rr_def P_def)
  have Rr: "2 ^ 52 \<le> Rr" "Rr \<le> 2 ^ 53"
    using R unfolding Rr_def
    by (metis of_int_le_iff of_int_numeral of_int_power)+
  have gap: "2 powi (- 53) \<le> 1 - Fr"
    using F by (simp add: Fr_def)
  have Fr1: "Fr < 1"
  proof -
    have "(0::rat) < 2 powi (- 53)" by simp
    with gap show ?thesis by linarith
  qed
  have Fr0: "0 < Fr"
    using m by (simp add: Fr_def)
  have diff: "(2 * Rr - 1) * P - 2 * (Fr * (Rr * P)) = (2 * ((1 - Fr) * Rr) - 1) * P"
    by (simp add: algebra_simps)
  have half: "1 \<le> 2 * ((1 - Fr) * Rr)"
  proof -
    have "2 powi (- 53) * 2 ^ 52 \<le> (1 - Fr) * Rr"
      using gap Rr(1) by (intro mult_mono) simp_all
    then show ?thesis by simp
  qed
  have two_x: "2 * xv \<le> (2 * Rr - 1) * P"
  proof -
    have "0 \<le> (2 * ((1 - Fr) * Rr) - 1) * P"
      using half P by (intro mult_nonneg_nonneg) simp_all
    with diff show ?thesis
      unfolding x by linarith
  qed
  have RP: "0 < Rr * P"
    using Rr(1) P by (intro mult_pos_pos) simp_all
  have x_lt: "xv < Rr * P"
  proof -
    have "Fr * (Rr * P) < 1 * (Rr * P)"
      using Fr1 RP by (rule mult_strict_right_mono)
    then show ?thesis by (simp add: x)
  qed
  have "Rr * P \<le> 2 ^ 53 * P"
    using Rr(2) P by (intro mult_right_mono) simp_all
  also have "\<dots> = 2 powi (S + 53)"
    by (simp add: P_def power_int_add)
  finally have "xv < 2 powi (S + 53)"
    using x_lt by linarith
  then have "(of_int (m * R) :: rat) * 2 powi (e + S) < 2 powi (S + 53)"
    by (simp only: xv_def)
  from quantum_bound [OF grid(2) _ _ this] e S have E': "E' \<le> S"
    by simp
  have goal_form: "of_int (2 * R - 1) * 2 powi S = (2 * Rr - 1) * P"
    by (simp add: Rr_def P_def)
  show ?thesis
  proof (cases "E' = S")
    case False
    with E' have lt: "E' \<le> S - 1" by simp
    define K where "K = (2 * R - 1) * 2 ^ nat (S - 1 - E')"
    have KP: "(of_int K :: rat) * 2 powi E' = (2 * Rr - 1) * 2 powi (S - 1)"
      by (simp add: K_def pow2_split [OF lt] Rr_def)
    have P2: "P = 2 * 2 powi (S - 1)"
      by (simp add: P_def power_int_diff)
    from two_x have "xv \<le> (2 * Rr - 1) * 2 powi (S - 1)"
      by (simp add: P2)
    then have "(of_int (m * R) :: rat) * 2 powi (e + S) \<le> of_int K * 2 powi E'"
      by (simp only: KP xv_def)
    then have "a' \<le> K"
      by (rule grid(3))
    then have "(of_int a' :: rat) \<le> of_int K"
      by simp
    then have "(of_int a' :: rat) * 2 powi E' \<le> of_int K * 2 powi E'"
      by (rule mult_right_mono) simp
    then have "(of_int a' :: rat) * 2 powi E' \<le> (2 * Rr - 1) * 2 powi (S - 1)"
      by (simp only: KP)
    then have "2 * ((of_int a' :: rat) * 2 powi E') \<le> (2 * Rr - 1) * (2 * 2 powi (S - 1))"
      by (simp add: algebra_simps)
    then have "2 * ((of_int a' :: rat) * 2 powi E') \<le> (2 * Rr - 1) * P"
      by (simp only: P2 [symmetric])
    then show ?thesis
      by (simp only: goal_form)
  next
    case True
    from grid(2) True e S have a_pos: "0 < m * R" and b: "int (bit_length (m * R)) - 1 + (e + S) = S + 52"
      by auto
    from dyadic_lower [OF a_pos, of "e + S"] have "(2::rat) powi (S + 52) \<le> xv"
      by (simp only: b xv_def)
    with x_lt have "(2::rat) powi (S + 52) < Rr * P"
      by linarith
    then have "2 ^ 52 * P < Rr * P"
      by (simp add: P_def power_int_add mult.commute)
    then have big: "2 ^ 52 < Rr"
      using P by (simp only: mult_less_cancel_right_pos)
    have pos53: "(0::rat) < 2 powi (- 53)" by simp
    have "2 powi (- 53) * 2 ^ 52 < 2 powi (- 53) * Rr"
      using big pos53 by (rule mult_strict_left_mono)
    also have "\<dots> \<le> (1 - Fr) * Rr"
      using gap Rr(1) by (intro mult_right_mono) simp_all
    finally have "1 < 2 * ((1 - Fr) * Rr)"
      by simp
    then have "0 < (2 * ((1 - Fr) * Rr) - 1) * P"
      using P by (intro mult_pos_pos) simp_all
    with diff have "2 * xv < (2 * Rr - 1) * P"
      unfolding x by linarith
    moreover have "(of_int (2 * (m * R)) :: rat) * 2 powi (e + S) = 2 * xv"
      by (simp add: xv_def)
    ultimately have "(of_int (2 * (m * R)) :: rat) * 2 powi (e + S) < of_int (2 * R - 1) * 2 powi E'"
      by (simp only: True goal_form)
    then have "a' \<le> R - 1"
      by (rule grid(4))
    then have "(of_int a' :: rat) \<le> Rr - 1"
      unfolding Rr_def by (metis of_int_le_iff of_int_diff of_int_1)
    then have "(of_int a' :: rat) * P \<le> (Rr - 1) * P"
      using P by (intro mult_right_mono) simp_all
    then have "2 * ((of_int a' :: rat) * P) \<le> (2 * Rr - 1) * P - P"
      by (simp add: algebra_simps)
    with P have "2 * ((of_int a' :: rat) * P) \<le> (2 * Rr - 1) * P"
      by linarith
    then have "2 * ((of_int a' :: rat) * 2 powi E') \<le> (2 * Rr - 1) * P"
      by (simp only: True P_def)
    then show ?thesis
      by (simp only: goal_form)
  qed
qed

text \<open>The mantissa of a decoded float has at most 53 bits.\<close>

lemma fraction_bits: "unat (take_bit 52 (w :: 64 word)) < 2 ^ 52"
  using take_bit_nat_less_exp [of 52 "unat w"] by (simp add: unsigned_take_bit_eq)

lemma decode_mantissa:
  assumes "decode w = Finite (Dyadic m e)"
  shows "\<bar>m\<bar> < 2 ^ 53"
proof -
  define fr where "fr = int (unat (take_bit 52 w))"
  have "uint (take_bit 52 w) < 2 ^ 52"
    using take_bit_int_less_exp [of 52 "uint w"] by (simp add: unsigned_take_bit_eq)
  then have fr: "0 \<le> fr" "fr < 2 ^ 52"
    by (simp_all add: fr_def)
  have "m = fr \<or> m = - fr \<or> m = 2 ^ 52 + fr \<or> m = - (2 ^ 52 + fr)"
    using assms by (auto simp: decode_def Let_def fr_def split: if_splits)
  with fr show ?thesis
    by auto
qed

text \<open>
  The float product of a positive float below 1 and a converted row count \<open>n\<close> is finite,
  non-negative and at most \<open>n\<close>.
\<close>

lemma fraction_times_count:
  assumes m: "0 < m" "m < 2 ^ 53" and f: "(of_int m :: rat) * 2 powi e < 1"
    and n: "0 \<le> n" and conv: "int_to_double n = Inr c"
  shows "\<exists>a' E'. float_mul (Finite (Dyadic m e)) c = Finite (Dyadic a' E') \<and> 0 \<le> a' \<and>
           (of_int a' :: rat) * 2 powi E' \<le> of_int n"
proof -
  note fb = fraction_below_one [OF m f]
  note c = int_to_double_Inr [OF conv]
  show ?thesis
  proof (rule nearest_grid [OF n, of 0])
  fix R S
  assume nR: "nearest (Dyadic n 0) = Dyadic R S" and R0: "0 \<le> R" and S0: "0 \<le> S" and
    shape_n: "(S = 0 \<and> R = n \<and> bit_length n \<le> 53) \<or>
         (0 < S \<and> (S = - 1074 \<or> (0 < n \<and> S = int (bit_length n) - 53 + 0)))" and
    up_n: "\<And>K. (of_int n :: rat) * 2 powi 0 \<le> of_int K * 2 powi S \<Longrightarrow> R \<le> K" and
    low_n: "\<And>K. (of_int K :: rat) * 2 powi S \<le> of_int n * 2 powi 0 \<Longrightarrow> K \<le> R" and
    strict_n: "\<And>K. (of_int (2 * n) :: rat) * 2 powi 0 < of_int (2 * K - 1) * 2 powi S \<Longrightarrow> R \<le> K - 1"
  have a0: "0 \<le> m * R"
    using m(1) R0 by simp
  show ?thesis
  proof (rule nearest_grid [OF a0, of "e + S"])
  fix a' E'
  assume na: "nearest (Dyadic (m * R) (e + S)) = Dyadic a' E'" and a'0: "0 \<le> a'" and E'0: "e + S \<le> E'" and
    shape_x: "(E' = e + S \<and> a' = m * R \<and> bit_length (m * R) \<le> 53) \<or>
         (e + S < E' \<and> (E' = - 1074 \<or> (0 < m * R \<and> E' = int (bit_length (m * R)) - 53 + (e + S))))" and
    up_x: "\<And>K. (of_int (m * R) :: rat) * 2 powi (e + S) \<le> of_int K * 2 powi E' \<Longrightarrow> a' \<le> K" and
    low_x: "\<And>K. (of_int K :: rat) * 2 powi E' \<le> of_int (m * R) * 2 powi (e + S) \<Longrightarrow> K \<le> a'" and
    strict_x: "\<And>K. (of_int (2 * (m * R)) :: rat) * 2 powi (e + S) < of_int (2 * K - 1) * 2 powi E' \<Longrightarrow> a' \<le> K - 1"
  let ?y = "(of_int a' :: rat) * 2 powi E'"
  let ?rn = "(of_int R :: rat) * 2 powi S"
  have rn_lt: "?rn < 2 powi 1024"
    using c(2) by (intro below_not_overflows [OF R0]) (simp add: nR)
  have both: "?y \<le> of_int n \<and> ?y \<le> ?rn"
    using shape_n
  proof
    assume ex: "S = 0 \<and> R = n \<and> bit_length n \<le> 53"
    have "?y \<le> of_int n"
    proof (rule product_le_exact [OF m(1) f fb(1) n])
      show "bit_length n \<le> 53" using ex by simp
      show "nearest (Dyadic (m * n) e) = Dyadic a' E'"
        using na ex by simp
      show "(E' = e \<and> a' = m * n \<and> bit_length (m * n) \<le> 53) \<or>
         (e < E' \<and> (E' = - 1074 \<or> (0 < m * n \<and> E' = int (bit_length (m * n)) - 53 + e)))"
        using shape_x ex by simp
      show "a' \<le> K" if "(of_int (m * n) :: rat) * 2 powi e \<le> of_int K * 2 powi E'" for K
        using that ex by (intro up_x) simp
    qed
    then show ?thesis
      using ex by simp
  next
    assume "0 < S \<and> (S = - 1074 \<or> (0 < n \<and> S = int (bit_length n) - 53 + 0))"
    then have S: "0 < S" and n_pos: "0 < n" and Sb: "S = int (bit_length n) - 53"
      by auto
    have "(of_int ((2::int) ^ 52) :: rat) * 2 powi S = 2 powi (int (bit_length n) - 1 + 0)"
      by (simp add: Sb power_int_diff power_int_add)
    also have "\<dots> \<le> of_int n * 2 powi 0"
      by (rule dyadic_lower [OF n_pos])
    finally have R_low: "2 ^ 52 \<le> R"
      by (rule low_n)
    have "(of_int n :: rat) * 2 powi 0 \<le> 2 powi (int (bit_length n) + 0)"
      using dyadic_upper [OF n, of 0] by simp
    also have "\<dots> = of_int ((2::int) ^ 53) * 2 powi S"
      by (simp add: Sb power_int_diff power_int_add)
    finally have R_up: "R \<le> 2 ^ 53"
      by (rule up_n)
    have two_y: "2 * ?y \<le> of_int (2 * R - 1) * 2 powi S"
      using m(1) fb(2) fb(1) S R_low R_up a'0 shape_x up_x strict_x by (rule product_le_rounded)
    have "\<not> (of_int (2 * n) :: rat) * 2 powi 0 < of_int (2 * R - 1) * 2 powi S"
    proof
      assume "(of_int (2 * n) :: rat) * 2 powi 0 < of_int (2 * R - 1) * 2 powi S"
      then have "R \<le> R - 1" by (rule strict_n)
      then show False by simp
    qed
    then have "(of_int (2 * R - 1) :: rat) * 2 powi S \<le> 2 * of_int n"
      by simp
    with two_y have y_n: "?y \<le> of_int n"
      by linarith
    have "(of_int (2 * R - 1) :: rat) * 2 powi S = 2 * ?rn - 2 powi S"
      by (simp add: algebra_simps)
    moreover have "0 < (2::rat) powi S"
      by simp
    ultimately have "(of_int (2 * R - 1) :: rat) * 2 powi S \<le> 2 * ?rn"
      by linarith
    with two_y have "2 * ?y \<le> 2 * ?rn"
      by linarith
    then have "?y \<le> ?rn"
      by linarith
    with y_n show ?thesis by simp
  qed
  then have "?y < 2 powi 1024"
    using rn_lt by linarith
  from not_overflows_below [OF a'0 this]
  have "float_mul (Finite (Dyadic m e)) c = Finite (Dyadic a' E')"
    by (simp add: c(1) nR round_double_def na)
  with a'0 both show ?thesis by blast
  qed
  qed
qed

lemma py_int_floor:
  assumes "0 \<le> m"
  shows "py_int (Finite (Dyadic m e)) = Inr \<lfloor>dyadic_value (Dyadic m e)\<rfloor>"
proof (cases "0 \<le> e")
  case True
  have "\<lfloor>(of_int m :: rat) * 2 powi e\<rfloor> = \<lfloor>(of_int (m * 2 ^ nat e) :: rat)\<rfloor>"
    using True by (simp add: power_int_def)
  then show ?thesis
    using True by (simp only: py_int.simps dyadic_value.simps if_True floor_of_int)
next
  case False
  then have e: "(2::rat) powi e = 1 / of_int (2 ^ nat (- e))"
    by (simp add: power_int_def field_simps)
  have "\<lfloor>(of_int m :: rat) * 2 powi e\<rfloor> = \<lfloor>(of_int m :: rat) / of_int (2 ^ nat (- e))\<rfloor>"
    by (simp only: e times_divide_eq_right mult_1_right)
  also have "\<dots> = m div 2 ^ nat (- e)"
    by (rule floor_divide_of_int_eq)
  finally have fl: "\<lfloor>(of_int m :: rat) * 2 powi e\<rfloor> = m div 2 ^ nat (- e)" .
  have "sgn m * (\<bar>m\<bar> div 2 ^ nat (- e)) = m div 2 ^ nat (- e)"
    using assms by (cases "m = 0") simp_all
  then show ?thesis
    using False fl by simp
qed

lemma split_index_fraction:
  assumes "decode train_fraction = Finite p" and "0 < dyadic_value p" and "dyadic_value p < 1"
    and "split_index train_fraction df = Inr k"
  shows "\<exists>c x. int_to_double (int (length (rows df))) = Inr c \<and>
               float_mul (decode train_fraction) c = Finite x \<and>
               k = \<lfloor>dyadic_value x\<rfloor> \<and> 0 \<le> k \<and> k \<le> int (length (rows df))"
proof -
  let ?n = "int (length (rows df))"
  obtain m e where p: "p = Dyadic m e" by (cases p)
  from assms(4) obtain c where conv: "int_to_double ?n = Inr c"
    and k: "py_int (float_mul (decode train_fraction) c) = Inr k"
    by (auto simp: split_index_def shape0_def split: sum.splits)
  have val: "0 < (of_int m :: rat) * 2 powi e" "(of_int m :: rat) * 2 powi e < 1"
    using assms(2,3) by (simp_all add: p)
  have pw: "0 < (2::rat) powi e"
    by simp
  have "0 < (of_int m :: rat)"
    using val(1) pw by (rule zero_less_mult_pos2)
  then have m_pos: "0 < m"
    by simp
  have m53: "m < 2 ^ 53"
    using decode_mantissa [of train_fraction m e] assms(1) p by simp
  from fraction_times_count [OF m_pos m53 val(2) _ conv] obtain a' E' where
    mul: "float_mul (Finite (Dyadic m e)) c = Finite (Dyadic a' E')" and
    a': "0 \<le> a'" and le: "(of_int a' :: rat) * 2 powi E' \<le> of_int ?n"
    by auto
  have mul': "float_mul (decode train_fraction) c = Finite (Dyadic a' E')"
    using mul by (simp add: assms(1) p)
  have "k = \<lfloor>dyadic_value (Dyadic a' E')\<rfloor>"
    using k py_int_floor [OF a', of E'] by (simp add: mul')
  moreover have "0 \<le> \<lfloor>dyadic_value (Dyadic a' E')\<rfloor>"
    using a' by simp
  moreover have "\<lfloor>dyadic_value (Dyadic a' E')\<rfloor> \<le> ?n"
    using le by (simp add: floor_le_iff)
  ultimately show ?thesis
    using conv mul' by blast
qed

text \<open>The slices of lines 79 and 80.\<close>

lemma slice_bound_le: "slice_bound n i \<le> n"
  by (auto simp: slice_bound_def)

lemma split_frame_rows:
  "split_frame df k = (df_train, df_test) \<Longrightarrow>
   rows df_train = take (slice_bound (length (rows df)) k) (rows df) \<and>
   rows df_test = drop (slice_bound (length (rows df)) k) (rows df) \<and>
   columns df_train = columns df \<and> columns df_test = columns df"
  using slice_bound_le [of "length (rows df)" k]
  by (auto simp: split_frame_def iloc_def copy_def Let_def slice_bound_def)

lemma slice_bound_in_range: "0 \<le> k \<Longrightarrow> k \<le> int n \<Longrightarrow> slice_bound n k = nat k"
  by (simp add: slice_bound_def)

text \<open>Line 78 evaluated for the float nearest to 0.8 and 400 rows.\<close>

lemma bit_length_numeral [simp]:
  "bit_length (numeral k) = Suc (bit_length (numeral k div 2))"
  by (subst bit_length.simps) simp

lemma bit_length_0 [simp]: "bit_length 0 = 0"
  by (simp add: bit_length_nonpos)

lemma bit_length_1 [simp]: "bit_length 1 = 1"
  by (simp add: bit_length_pos)

lemma decode_0_8: "decode fraction_0_8 = Finite (Dyadic 7205759403792794 (- 53))"
  by (simp add: decode_def fraction_0_8_def Let_def bit_iff_odd drop_bit_eq_div take_bit_eq_mod unat_eq_nat_uint)

lemma int_to_double_400: "int_to_double 400 = Inr (Finite (Dyadic 400 0))"
  by (simp add: int_to_double_def round_double_def nearest_def overflows_def Let_def)

lemma split_index_0_8:
  assumes "length (rows df) = 400"
  shows "split_index fraction_0_8 df = Inr 320"
  by (simp add: split_index_def shape0_def assms int_to_double_400 round_double_def nearest_def overflows_def
      Let_def decode_0_8 round_half_even_def)

text \<open>The tracking calls inside an active run, and the outcome of the block.\<close>

lemma get_or_start_run_active:
  "active_run_stack s = run # outer \<Longrightarrow> get_or_start_run s = (run, s)"
  by (simp add: get_or_start_run_def)

lemma log_metric_active:
  assumes "active_run_stack s \<noteq> []" and "log_metric store key v s = (r, s1)"
  shows "active_run_stack s1 = active_run_stack s \<and> status s1 = status s \<and> next_run_id s1 = next_run_id s"
  using assms
  by (cases "active_run_stack s") (auto simp: log_metric_def get_or_start_run_def split: option.splits)

lemma log_model_active:
  assumes "active_run_stack s \<noteq> []" and "log_model store path m s = (r, s1)"
  shows "active_run_stack s1 = active_run_stack s \<and> status s1 = status s \<and> next_run_id s1 = next_run_id s"
  using assms
  by (cases "active_run_stack s") (auto simp: log_model_def get_or_start_run_def split: option.splits)

lemma print_model_uri_active:
  assumes "print_model_uri s = Inr s1"
  shows "active_run_stack s1 = active_run_stack s \<and> status s1 = status s \<and> next_run_id s1 = next_run_id s"
  using assms by (auto simp: print_model_uri_def split: list.splits)

lemma train_predict_block_tracker:
  assumes "active_run_stack s \<noteq> []"
    and "train_predict_block lib df train_fraction seasonality s = (r, s')"
  shows "active_run_stack s' = active_run_stack s \<and> status s' = status s"
proof -
  have m: "active_run_stack s1 = active_run_stack s \<and> status s1 = status s"
    if "log_metric (store_metric lib) key v s = (r1, s1)" for key v r1 s1
    using log_metric_active [OF assms(1) that] by simp
  have mm: "active_run_stack s2 = active_run_stack s \<and> status s2 = status s"
    if "log_metric (store_metric lib) key v s = (r1, s1)" and "log_model (store_model lib) path mo s1 = (r2, s2)"
    for key v r1 s1 path mo r2 s2
  proof -
    from m [OF that(1)] assms(1) have "active_run_stack s1 \<noteq> []" by simp
    from log_model_active [OF this that(2)] m [OF that(1)] show ?thesis by simp
  qed
  have mmp: "active_run_stack s3 = active_run_stack s \<and> status s3 = status s"
    if "log_metric (store_metric lib) key v s = (r1, s1)" and "log_model (store_model lib) path mo s1 = (r2, s2)"
      and "print_model_uri s2 = Inr s3"
    for key v r1 s1 path mo r2 s2 s3
    using mm [OF that(1,2)] print_model_uri_active [OF that(3)] by simp
  show ?thesis
    using assms(2) unfolding train_predict_block_def
    by (auto split: sum.splits prod.splits option.splits dest: m mm mmp)
qed

lemma train_predict_block_Inr:
  assumes "train_predict_block lib df train_fraction seasonality s = (Inr (predicted, df_train, df_test, train_index), s')"
  shows "split_index train_fraction df = Inr train_index \<and> split_frame df train_index = (df_train, df_test)"
  using assms unfolding train_predict_block_def
  by (auto split: sum.splits prod.splits option.splits)

lemma train_predict_Inr:
  assumes "train_predict lib df train_fraction seasonality s = (Inr (predicted, df_train, df_test, train_index), s')"
  shows "split_index train_fraction df = Inr train_index \<and> split_frame df train_index = (df_train, df_test)"
proof -
  from assms obtain s0 s1 where
    "train_predict_block lib df train_fraction seasonality s0 = (Inr (predicted, df_train, df_test, train_index), s1)"
    by (auto simp: train_predict_def split: sum.splits prod.splits)
  then show ?thesis by (rule train_predict_block_Inr)
qed

lemma length_daily_series: "length (rows (daily_series n)) = n"
  by (simp add: daily_series_def)

lemma sample_fit_run:
  "fst (train_predict sample_libraries (daily_series 400) fraction_0_8 sample_seasonality empty_tracker)
   = Inr (iloc (daily_series 400) (Some 320) None,
          iloc (daily_series 400) (Some 0) (Some 320),
          iloc (daily_series 400) (Some 320) None, 320)"
  by (simp add: train_predict_def start_run_def empty_tracker_def push_run_def
      train_predict_block_def split_index_0_8 length_daily_series split_frame_def copy_def
      dict_getitem_def sample_seasonality_def sample_libraries_def
      log_metric_def log_model_def get_or_start_run_def print_model_uri_def)

lemma failing_fit_run:
  "fst (train_predict failing_libraries (daily_series 400) fraction_0_8 sample_seasonality empty_tracker)
   = Inl (ValueError ''fit'')"
  by (simp add: train_predict_def start_run_def empty_tracker_def push_run_def
      train_predict_block_def split_index_0_8 length_daily_series split_frame_def copy_def
      dict_getitem_def sample_seasonality_def sample_libraries_def failing_libraries_def)

lemma fraction_0_8_range:
  "0 < dyadic_value (Dyadic 7205759403792794 (- 53))" "dyadic_value (Dyadic 7205759403792794 (- 53)) < 1"
  by simp_all

text \<open>
  The product of line 78 is a float product, rounded once. For the float nearest to 0.3
  and ten rows the exact product is a little below 3 and its floor is 2; the float product
  is 3.0, and the split index is 3.
\<close>

lemma split_index_0_3:
  assumes "length (rows df) = 10"
  shows "decode 0x3FD3333333333333 = Finite (Dyadic 5404319552844595 (- 54))"
    and "split_index 0x3FD3333333333333 df = Inr 3"
    and "\<lfloor>dyadic_value (Dyadic 5404319552844595 (- 54)) * 10\<rfloor> = 2"
proof -
  show d: "decode 0x3FD3333333333333 = Finite (Dyadic 5404319552844595 (- 54))"
    by (simp add: decode_def Let_def bit_iff_odd drop_bit_eq_div take_bit_eq_mod unat_eq_nat_uint)
  show "split_index 0x3FD3333333333333 df = Inr 3"
    by (simp add: split_index_def shape0_def assms int_to_double_def round_double_def nearest_def
        overflows_def Let_def d round_half_even_def)
  show "\<lfloor>dyadic_value (Dyadic 5404319552844595 (- 54)) * 10\<rfloor> = 2"
    by (simp add: floor_eq_iff)
qed

subsection \<open>The train/test split and the tracking run\<close>

text \<open>
  C1. When \<open>train_predict\<close> returns, the two slices have as many rows together as the
  series. For a fraction strictly between 0 and 1 the train slice has
  \<open>floor (train_fraction * len(df))\<close> rows, where the product is the one line 78
  computes: the row count converted to a float, times the fraction, rounded to the nearest
  float. For the float nearest to 0.8 and 400 rows that is 320 rows, and 80 in the test
  slice.
\<close>

theorem train_predict_split_lengths:
  assumes "train_predict lib df train_fraction seasonality s
             = (Inr (predicted, df_train, df_test, train_index), s')"
    and "decode train_fraction = Finite p" and "0 < dyadic_value p" and "dyadic_value p < 1"
  shows "length (rows df_train) + length (rows df_test) = length (rows df) \<and>
         (\<exists>c x. int_to_double (int (length (rows df))) = Inr c \<and>
                float_mul (decode train_fraction) c = Finite x \<and>
                int (length (rows df_train)) = \<lfloor>dyadic_value x\<rfloor>) \<and>
         (train_fraction = fraction_0_8 \<and> length (rows df) = 400 \<longrightarrow>
            length (rows df_train) = 320 \<and> length (rows df_test) = 80)"
proof -
  from train_predict_Inr [OF assms(1)] have
    idx: "split_index train_fraction df = Inr train_index" and
    fr: "split_frame df train_index = (df_train, df_test)"
    by simp_all
  note rows = split_frame_rows [OF fr]
  from split_index_fraction [OF assms(2-4) idx] obtain c x where
    c: "int_to_double (int (length (rows df))) = Inr c" and
    x: "float_mul (decode train_fraction) c = Finite x" and
    k: "train_index = \<lfloor>dyadic_value x\<rfloor>" "0 \<le> train_index" "train_index \<le> int (length (rows df))"
    by auto
  have bound: "slice_bound (length (rows df)) train_index = nat train_index"
    using k(2,3) by (rule slice_bound_in_range)
  have len: "length (rows df_train) = nat train_index"
    using rows k(2,3) by (simp add: bound)
  have sum: "length (rows df_train) + length (rows df_test) = length (rows df)"
    using rows k(2,3) by (simp add: bound)
  have "int (length (rows df_train)) = \<lfloor>dyadic_value x\<rfloor>"
    using len k(1,2) by simp
  with c x have ex: "\<exists>c x. int_to_double (int (length (rows df))) = Inr c \<and>
                float_mul (decode train_fraction) c = Finite x \<and>
                int (length (rows df_train)) = \<lfloor>dyadic_value x\<rfloor>"
    by blast
  have "length (rows df_train) = 320 \<and> length (rows df_test) = 80"
    if "train_fraction = fraction_0_8" and "length (rows df) = 400"
  proof -
    from idx that have "train_index = 320"
      by (simp add: split_index_0_8)
    with len sum that(2) show ?thesis by simp
  qed
  with sum ex show ?thesis by blast
qed

theorem train_predict_split_lengths_witness:
  "train_predict sample_libraries (daily_series 400) fraction_0_8 sample_seasonality empty_tracker
     = (Inr (iloc (daily_series 400) (Some 320) None,
             iloc (daily_series 400) (Some 0) (Some 320),
             iloc (daily_series 400) (Some 320) None, 320),
        snd (train_predict sample_libraries (daily_series 400) fraction_0_8 sample_seasonality empty_tracker)) \<and>
   decode fraction_0_8 = Finite (Dyadic 7205759403792794 (- 53)) \<and>
   0 < dyadic_value (Dyadic 7205759403792794 (- 53)) \<and>
   dyadic_value (Dyadic 7205759403792794 (- 53)) < 1 \<and>
   length (rows (iloc (daily_series 400) (Some 0) (Some 320))) = 320 \<and>
   length (rows (iloc (daily_series 400) (Some 320) None)) = 80 \<and>
   length (rows (iloc (daily_series 400) (Some 0) (Some 320)))
     + length (rows (iloc (daily_series 400) (Some 320) None)) = length (rows (daily_series 400))"
proof -
  have run: "train_predict sample_libraries (daily_series 400) fraction_0_8 sample_seasonality empty_tracker
     = (Inr (iloc (daily_series 400) (Some 320) None,
             iloc (daily_series 400) (Some 0) (Some 320),
             iloc (daily_series 400) (Some 320) None, 320),
        snd (train_predict sample_libraries (daily_series 400) fraction_0_8 sample_seasonality empty_tracker))"
    using sample_fit_run by (simp add: prod_eq_iff)
  from train_predict_split_lengths [OF run decode_0_8 fraction_0_8_range]
  show ?thesis
    using run decode_0_8 fraction_0_8_range by (simp add: length_daily_series)
qed

text \<open>
  C7. The split is a prefix and a suffix of the series, in the order of the series: the
  train slice followed by the test slice is the series, row for row with the index labels,
  and both slices keep the columns. For a split index that is not negative (it never is
  for a fraction between 0 and 1, by \<open>split_index_fraction\<close>) the train slice is the
  first \<open>train_index\<close> rows and the test slice the remaining ones. Nothing in the split
  is random: the slices are functions of the series and the index.
\<close>

theorem train_predict_prefix_suffix:
  assumes "train_predict lib df train_fraction seasonality s
             = (Inr (predicted, df_train, df_test, train_index), s')"
  shows "rows df_train @ rows df_test = rows df \<and>
         columns df_train = columns df \<and> columns df_test = columns df \<and>
         (0 \<le> train_index \<longrightarrow>
            rows df_train = take (nat train_index) (rows df) \<and>
            rows df_test = drop (nat train_index) (rows df))"
proof -
  from train_predict_Inr [OF assms] have "split_frame df train_index = (df_train, df_test)"
    by simp
  from split_frame_rows [OF this] show ?thesis
    by (auto simp: slice_bound_def min_def)
qed

theorem train_predict_prefix_suffix_witness:
  "train_predict sample_libraries (daily_series 400) fraction_0_8 sample_seasonality empty_tracker
     = (Inr (iloc (daily_series 400) (Some 320) None,
             iloc (daily_series 400) (Some 0) (Some 320),
             iloc (daily_series 400) (Some 320) None, 320),
        snd (train_predict sample_libraries (daily_series 400) fraction_0_8 sample_seasonality empty_tracker)) \<and>
   (0::int) \<le> 320 \<and>
   rows (iloc (daily_series 400) (Some 0) (Some 320)) = take 320 (rows (daily_series 400)) \<and>
   rows (iloc (daily_series 400) (Some 320) None) = drop 320 (rows (daily_series 400)) \<and>
   rows (iloc (daily_series 400) (Some 0) (Some 320)) @ rows (iloc (daily_series 400) (Some 320) None)
     = rows (daily_series 400)"
proof -
  have run: "train_predict sample_libraries (daily_series 400) fraction_0_8 sample_seasonality empty_tracker
     = (Inr (iloc (daily_series 400) (Some 320) None,
             iloc (daily_series 400) (Some 0) (Some 320),
             iloc (daily_series 400) (Some 320) None, 320),
        snd (train_predict sample_libraries (daily_series 400) fraction_0_8 sample_seasonality empty_tracker))"
    using sample_fit_run by (simp add: prod_eq_iff)
  from train_predict_prefix_suffix [OF run]
  show ?thesis
    using run by simp
qed

text \<open>
  C9. Whatever the libraries and the tracking store do inside the block (return or
  raise, at any step), \<open>train_predict\<close> ends with the stack of active runs as it found it:
  the run it started is closed. When it did start one (no run was active), that run ends
  with the status FAILED if the call raised and FINISHED if it returned.
\<close>

theorem train_predict_closes_run:
  "active_run_stack (snd (train_predict lib df train_fraction seasonality s)) = active_run_stack s \<and>
   (active_run_stack s = [] \<longrightarrow>
      status (snd (train_predict lib df train_fraction seasonality s)) (next_run_id s)
        = Some (if isl (fst (train_predict lib df train_fraction seasonality s)) then FAILED else FINISHED))"
proof (cases "active_run_stack s = []")
  case False
  then show ?thesis
    by (simp add: train_predict_def start_run_def)
next
  case True
  let ?s0 = "push_run s"
  obtain r s1 where block: "train_predict_block lib df train_fraction seasonality ?s0 = (r, s1)"
    by (cases "train_predict_block lib df train_fraction seasonality ?s0")
  have "active_run_stack ?s0 \<noteq> []"
    by (simp add: push_run_def)
  from train_predict_block_tracker [OF this block]
  have s1: "active_run_stack s1 = [next_run_id s]" "status s1 = (status s)(next_run_id s \<mapsto> RUNNING)"
    using True by (simp_all add: push_run_def)
  have run: "train_predict lib df train_fraction seasonality s
             = (r, end_run (if isl r then FAILED else FINISHED) s1)"
    using True block by (cases r) (simp_all add: train_predict_def start_run_def)
  show ?thesis
    using True s1 by (simp add: run end_run_def)
qed

theorem train_predict_closes_run_witness:
  "active_run_stack empty_tracker = [] \<and>
   fst (train_predict failing_libraries (daily_series 400) fraction_0_8 sample_seasonality empty_tracker)
     = Inl (ValueError ''fit'') \<and>
   active_run_stack
     (snd (train_predict failing_libraries (daily_series 400) fraction_0_8 sample_seasonality empty_tracker)) = [] \<and>
   status
     (snd (train_predict failing_libraries (daily_series 400) fraction_0_8 sample_seasonality empty_tracker)) 0
     = Some FAILED"
proof -
  have e: "active_run_stack empty_tracker = []" "next_run_id empty_tracker = 0"
    by (simp_all add: empty_tracker_def)
  from train_predict_closes_run [of failing_libraries "daily_series 400" fraction_0_8 sample_seasonality empty_tracker]
  show ?thesis
    using e by (simp add: failing_fit_run)
qed

subsection \<open>The forecast chart\<close>

lemma frame_plot_Inr:
  "x \<in> set (columns df) \<Longrightarrow> y \<in> set (columns df) \<Longrightarrow>
   frame_plot df x y label plt
     = Inr (plt\<lparr>artists := artists plt @ [Line label (zip (map (cell_at df x) (rows df)) (map (cell_at df y) (rows df)))]\<rparr>)"
  by (simp add: frame_plot_def getitem_def)

lemma frame_plot_saved: "frame_plot df x y label plt = Inr plt' \<Longrightarrow> saved plt' = saved plt"
  by (auto simp: frame_plot_def split: sum.splits)

lemma columns_iloc: "columns (iloc df start stop) = columns df"
  by (simp add: iloc_def Let_def)

lemma plot_forecast_unbound:
  assumes "g ''train_index'' = None"
  shows "isl (fst (plot_forecast g df_train df_test predicted plt))"
    and "saved (snd (plot_forecast g df_train df_test predicted plt)) = saved plt"
  using assms unfolding plot_forecast_def Let_def
  by (auto simp: load_global_def subplots_def fill_between_def split: sum.splits dest!: frame_plot_saved)

lemma plot_forecast_NameError:
  assumes "g ''train_index'' = None"
    and "''ds'' \<in> set (columns df_test)" and "''y'' \<in> set (columns df_test)"
    and "''ds'' \<in> set (columns predicted)" and "''yhat'' \<in> set (columns predicted)"
    and "''yhat_upper'' \<in> set (columns predicted)" and "''yhat_lower'' \<in> set (columns predicted)"
  shows "fst (plot_forecast g df_train df_test predicted plt) = Inl (NameError ''train_index'')"
  using assms unfolding plot_forecast_def Let_def
  by (simp add: frame_plot_Inr getitem_def load_global_def)

lemma plot_forecast_bound:
  assumes "g ''train_index'' = Some (IntC k)"
    and "''ds'' \<in> set (columns df_test)" and "''y'' \<in> set (columns df_test)"
    and "''ds'' \<in> set (columns predicted)" and "''yhat'' \<in> set (columns predicted)"
    and "''yhat_upper'' \<in> set (columns predicted)" and "''yhat_lower'' \<in> set (columns predicted)"
    and "''ds'' \<in> set (columns df_train)" and "''y'' \<in> set (columns df_train)"
  shows "fst (plot_forecast g df_train df_test predicted plt) = Inr ()"
    and "last (artists (snd (plot_forecast g df_train df_test predicted plt)))
         = Line ''_nolegend_''
             (zip (map (cell_at df_train ''ds'') (rows (iloc df_train (Some (k - 100)) None)))
                  (map (cell_at df_train ''y'') (rows (iloc df_train (Some (k - 100)) None))))"
  using assms unfolding plot_forecast_def Let_def
  by (simp_all add: frame_plot_Inr getitem_def load_global_def columns_iloc savefig_def
      cell_at_cong_columns [OF columns_iloc])

lemma sample_plot_columns:
  "''ds'' \<in> set (columns (daily_series n))" "''y'' \<in> set (columns (daily_series n))"
  "''ds'' \<in> set (columns sample_forecast)" "''yhat'' \<in> set (columns sample_forecast)"
  "''yhat_upper'' \<in> set (columns sample_forecast)" "''yhat_lower'' \<in> set (columns sample_forecast)"
  by (simp_all add: daily_series_def sample_forecast_def)

text \<open>
  C10, as claimed: every call of \<open>plot_forecast\<close> made while no global
  \<open>train_index\<close> is defined fails with NameError. Not every call: the lines before
  line 134 run first, and a forecast frame without the column \<open>yhat\<close> makes line 118
  raise KeyError before the global is read.
\<close>

theorem plot_forecast_fails_before_global:
  "(Map.empty :: globals) ''train_index'' = None \<and>
   fst (plot_forecast Map.empty (daily_series 3) (daily_series 2) forecast_without_yhat blank_pyplot)
     = Inl (KeyError ''yhat'') \<and>
   Inl (KeyError ''yhat'') \<noteq> (Inl (NameError ''train_index'') :: error + unit)"
  by (simp add: plot_forecast_def Let_def subplots_def frame_plot_def getitem_def
      daily_series_def forecast_without_yhat_def blank_pyplot_def)

text \<open>
  C10, amended. \<open>plot_forecast\<close> reads \<open>train_index\<close>, which is none of its three
  parameters, from the module's globals. While the name is not defined there the function
  never returns normally and saves no chart: it raises NameError whenever the plotting
  calls before line 134 find their columns, and the error of the earlier call otherwise.
  While the name is bound to an integer \<open>k\<close> and the three frames have their columns,
  the call succeeds and the last curve drawn is the rows of \<open>df_train\<close> from position
  \<open>k - 100\<close> on: the global decides what is drawn.
\<close>

theorem plot_forecast_reads_global:
  "(g ''train_index'' = None \<longrightarrow>
      isl (fst (plot_forecast g df_train df_test predicted plt)) \<and>
      saved (snd (plot_forecast g df_train df_test predicted plt)) = saved plt \<and>
      (''ds'' \<in> set (columns df_test) \<and> ''y'' \<in> set (columns df_test) \<and>
       ''ds'' \<in> set (columns predicted) \<and> ''yhat'' \<in> set (columns predicted) \<and>
       ''yhat_upper'' \<in> set (columns predicted) \<and> ''yhat_lower'' \<in> set (columns predicted) \<longrightarrow>
       fst (plot_forecast g df_train df_test predicted plt) = Inl (NameError ''train_index''))) \<and>
   (g ''train_index'' = Some (IntC k) \<and>
    ''ds'' \<in> set (columns df_test) \<and> ''y'' \<in> set (columns df_test) \<and>
    ''ds'' \<in> set (columns predicted) \<and> ''yhat'' \<in> set (columns predicted) \<and>
    ''yhat_upper'' \<in> set (columns predicted) \<and> ''yhat_lower'' \<in> set (columns predicted) \<and>
    ''ds'' \<in> set (columns df_train) \<and> ''y'' \<in> set (columns df_train) \<longrightarrow>
      fst (plot_forecast g df_train df_test predicted plt) = Inr () \<and>
      last (artists (snd (plot_forecast g df_train df_test predicted plt)))
        = Line ''_nolegend_''
            (zip (map (cell_at df_train ''ds'') (rows (iloc df_train (Some (k - 100)) None)))
                 (map (cell_at df_train ''y'') (rows (iloc df_train (Some (k - 100)) None)))))"
  using plot_forecast_unbound [of g df_train df_test predicted plt]
    plot_forecast_NameError [of g df_test predicted df_train plt]
    plot_forecast_bound [of g k df_test predicted df_train plt]
  by blast

theorem plot_forecast_reads_global_witness:
  "(Map.empty :: globals) ''train_index'' = None \<and>
   fst (plot_forecast Map.empty (daily_series 3) (daily_series 2) sample_forecast blank_pyplot)
     = Inl (NameError ''train_index'') \<and>
   saved (snd (plot_forecast Map.empty (daily_series 3) (daily_series 2) sample_forecast blank_pyplot))
     = saved blank_pyplot \<and>
   [''train_index'' \<mapsto> IntC 102] ''train_index'' = Some (IntC 102) \<and>
   fst (plot_forecast [''train_index'' \<mapsto> IntC 102] (daily_series 3) (daily_series 2) sample_forecast blank_pyplot)
     = Inr () \<and>
   last (artists (snd (plot_forecast [''train_index'' \<mapsto> IntC 102] (daily_series 3) (daily_series 2)
           sample_forecast blank_pyplot)))
     = Line ''_nolegend_'' [(TimeC 172800000000000, IntC 2)]"
proof -
  note cols = sample_plot_columns
  from plot_forecast_reads_global [of Map.empty "daily_series 3" "daily_series 2" sample_forecast blank_pyplot 0]
  have a: "fst (plot_forecast Map.empty (daily_series 3) (daily_series 2) sample_forecast blank_pyplot)
     = Inl (NameError ''train_index'')"
    and b: "saved (snd (plot_forecast Map.empty (daily_series 3) (daily_series 2) sample_forecast blank_pyplot))
     = saved blank_pyplot"
    using cols by simp_all
  from plot_forecast_reads_global [of "[''train_index'' \<mapsto> IntC 102]" "daily_series 3" "daily_series 2"
      sample_forecast blank_pyplot 102]
  have c: "fst (plot_forecast [''train_index'' \<mapsto> IntC 102] (daily_series 3) (daily_series 2) sample_forecast blank_pyplot)
     = Inr ()"
    and d: "last (artists (snd (plot_forecast [''train_index'' \<mapsto> IntC 102] (daily_series 3) (daily_series 2)
           sample_forecast blank_pyplot)))
     = Line ''_nolegend_''
            (zip (map (cell_at (daily_series 3) ''ds'') (rows (iloc (daily_series 3) (Some (102 - 100)) None)))
                 (map (cell_at (daily_series 3) ''y'') (rows (iloc (daily_series 3) (Some (102 - 100)) None))))"
    using cols by simp_all
  have "zip (map (cell_at (daily_series 3) ''ds'') (rows (iloc (daily_series 3) (Some (102 - 100)) None)))
            (map (cell_at (daily_series 3) ''y'') (rows (iloc (daily_series 3) (Some (102 - 100)) None)))
        = [(TimeC 172800000000000, IntC 2)]"
    by (simp add: daily_series_def iloc_def slice_bound_def cell_at_def upt_rec)
  with a b c d show ?thesis
    by simp
qed

end
